theory Spec2Isabelle
  imports Complex_Main "HOL-Library.List_Lexorder" "HOL-Library.Char_ord"
begin

section \<open>JavaScript values, objects and errors\<close>

text \<open>
  The resource layer (the script part of the file holding \<^verbatim>\<open>IndexedDBResource\<close>,
  \<^verbatim>\<open>Resource\<close> and \<^verbatim>\<open>Tree\<close>) works on plain JavaScript objects. A field that is
  absent reads as \<^verbatim>\<open>undefined\<close>, which the model writes \<open>None\<close>; \<^verbatim>\<open>null\<close> is a value of
  its own. Numbers are modelled as reals: the rounding of IEEE doubles is not modelled.
\<close>

datatype jsval = JNull | JBool bool | JNum real | JStr string | JArr "jsval list"

type_synonym obj = "string \<rightharpoonup> jsval"

text \<open>
  What a rejected promise or a thrown exception carries. \<open>TypeError\<close> is what the
  runtime throws on a property read of \<^verbatim>\<open>undefined\<close> or on a call of something that is
  not a function; \<open>Rejected\<close> is \<^verbatim>\<open>Promise.reject()\<close> with no reason; \<open>RequestFailure\<close>
  is a failed remote request; \<open>StoreError\<close> is a query the local store rejects.
\<close>

datatype error = TypeError | RangeError | Rejected | RequestFailure | StoreError

section \<open>JavaScript numbers\<close>

text \<open>
  The numbers of the sort order are IEEE 754 doubles. A finite double is written as
  the real it denotes (\<open>Num x\<close>; the two zeros are not told apart, no operation used here
  does); besides them there are the two infinities and \<^verbatim>\<open>NaN\<close>.
\<close>

datatype number = Num real | PosInfinity | NegInfinity | NaN

text \<open>The nearest integer, the even one of the two when they are equally near.\<close>

definition round_half_even :: "real \<Rightarrow> int" where
  "round_half_even y =
     (let f = \<lfloor>y\<rfloor>; d = y - of_int f
      in if d < 1 / 2 then f else if 1 / 2 < d then f + 1 else if even f then f else f + 1)"

text \<open>
  The exponent of the unit in the last place of the doubles around \<open>x\<close>: 52 binary
  digits below the leading one for a normal number, \<open>-1074\<close> throughout the subnormal range.
\<close>

definition ulp_exponent :: "real \<Rightarrow> int" where
  "ulp_exponent x = max \<lfloor>log 2 \<bar>x\<bar>\<rfloor> (- 1022) - 52"

text \<open>
  The double that an exact result \<open>x\<close> is rounded to: the nearest multiple of the unit in
  the last place, ties to even; an infinity when that is beyond the largest double.
\<close>

definition to_double :: "real \<Rightarrow> number" where
  "to_double x =
     (if x = 0 then Num 0
      else let q = 2 powi ulp_exponent x;
               r = of_int (round_half_even (x / q)) * q
           in if 2 ^ 1024 \<le> \<bar>r\<bar> then (if 0 < x then PosInfinity else NegInfinity)
              else Num r)"

text \<open>\<^verbatim>\<open>a + b\<close>, \<^verbatim>\<open>a / 2\<close> and \<^verbatim>\<open>a < b\<close> on numbers.\<close>

fun num_add :: "number \<Rightarrow> number \<Rightarrow> number" where
  "num_add (Num x) (Num y) = to_double (x + y)"
| "num_add NaN b = NaN"
| "num_add a NaN = NaN"
| "num_add PosInfinity NegInfinity = NaN"
| "num_add NegInfinity PosInfinity = NaN"
| "num_add PosInfinity b = PosInfinity"
| "num_add a PosInfinity = PosInfinity"
| "num_add NegInfinity b = NegInfinity"
| "num_add a NegInfinity = NegInfinity"

fun num_half :: "number \<Rightarrow> number" where
  "num_half (Num x) = to_double (x / 2)"
| "num_half a = a"

fun num_less :: "number \<Rightarrow> number \<Rightarrow> bool" where
  "num_less (Num x) (Num y) = (x < y)"
| "num_less NaN b = False"
| "num_less a NaN = False"
| "num_less a NegInfinity = False"
| "num_less PosInfinity b = False"
| "num_less NegInfinity b = True"
| "num_less a PosInfinity = True"

text \<open>
  \<^verbatim>\<open>Array.prototype.sort\<close> with a comparison function, as a stable insertion sort:
  \<open>lt a b\<close> is the comparison saying that \<open>a\<close> comes first. The sort is stable; when the
  comparison is not an order (as it is not with a \<^verbatim>\<open>NaN\<close> among the values), the
  order of the result is left to the engine, and this is one such order.
\<close>

fun insert_by :: "('a \<Rightarrow> 'a \<Rightarrow> bool) \<Rightarrow> 'a \<Rightarrow> 'a list \<Rightarrow> 'a list" where
  "insert_by lt x [] = [x]"
| "insert_by lt x (y # ys) = (if lt y x then y # insert_by lt x ys else x # y # ys)"

definition sort_by :: "('a \<Rightarrow> 'a \<Rightarrow> bool) \<Rightarrow> 'a list \<Rightarrow> 'a list" where
  "sort_by lt xs = foldr (insert_by lt) xs []"

section \<open>The tree table\<close>

text \<open>
  A row of the tree table. \<open>lft\<close> is a number or \<^verbatim>\<open>null\<close> (\<open>None\<close>); \<open>source_id\<close> is an
  id or \<^verbatim>\<open>null\<close>; \<open>level\<close> is a number, \<open>None\<close> when it is \<^verbatim>\<open>undefined\<close> or \<^verbatim>\<open>NaN\<close>;
  \<open>tree_id\<close> and \<open>channel_id\<close> are only ever copied.
\<close>

record tree_node =
  node_id :: string
  parent :: string
  lft :: "number option"
  tree_id :: "jsval option"
  channel_id :: "jsval option"
  source_id :: "string option"
  level :: "int option"

text \<open>
  \<^verbatim>\<open>RELATIVE_TREE_POSITIONS\<close>. Modelled from the spec: the constants module is not among
  the sources; the spec names the four positions first-child, last-child, left-of and
  right-of. \<open>OTHER s\<close> is any other string a caller passes.
\<close>

datatype position = FIRST_CHILD | LAST_CHILD | LEFT | RIGHT | OTHER string

definition validPositions :: "position set" where
  "validPositions = {FIRST_CHILD, LAST_CHILD, LEFT, RIGHT}"

text \<open>
  The table is the list of its rows in the order of the primary key \<open>id\<close> (strings, in
  lexicographic order), as IndexedDB iterates them.
\<close>

definition table_get :: "tree_node list \<Rightarrow> string \<Rightarrow> tree_node option" where
  "table_get tbl k = find (\<lambda>n. node_id n = k) tbl"

fun table_put :: "tree_node \<Rightarrow> tree_node list \<Rightarrow> tree_node list" where
  "table_put n [] = [n]"
| "table_put n (m # ms) =
     (if node_id n = node_id m then n # ms
      else if node_id n < node_id m then n # m # ms
      else m # table_put n ms)"

text \<open>\<^verbatim>\<open>ToNumber\<close> on an \<open>lft\<close>: \<^verbatim>\<open>null\<close> counts as 0 in arithmetic and comparisons.\<close>

definition to_number :: "number option \<Rightarrow> number" where
  "to_number l = (case l of None \<Rightarrow> Num 0 | Some x \<Rightarrow> x)"

text \<open>
  \<^verbatim>\<open>table.where({ parent }).sortBy('lft')\<close>: the rows with that parent, in key order,
  then sorted by the store library with \<^verbatim>\<open>Array.prototype.sort\<close>, comparing \<open>lft\<close> with \<^verbatim>\<open><\<close>
  and \<^verbatim>\<open>>\<close>.
\<close>

definition where_parent_sortBy_lft :: "tree_node list \<Rightarrow> string \<Rightarrow> tree_node list" where
  "where_parent_sortBy_lft tbl p =
     sort_by (\<lambda>a b. num_less (to_number (lft a)) (to_number (lft b)))
       (filter (\<lambda>n. parent n = p) tbl)"

text \<open>
  \<^verbatim>\<open>table.update(id, { parent, lft })\<close> of the store library: the number of rows updated,
  1 when the row exists and one of the two properties differs (\<^verbatim>\<open>!==\<close>) from the stored
  one, 0 when there is no such row or nothing differs. \<open>strict_equal\<close> is \<^verbatim>\<open>===\<close> on an
  \<open>lft\<close>: \<^verbatim>\<open>NaN\<close> differs from itself.
\<close>

definition strict_equal :: "number option \<Rightarrow> number option \<Rightarrow> bool" where
  "strict_equal a b \<longleftrightarrow> a = b \<and> a \<noteq> Some NaN"

definition table_update_row ::
    "tree_node list \<Rightarrow> string \<Rightarrow> string \<Rightarrow> number option \<Rightarrow> bool \<times> tree_node list" where
  "table_update_row tbl k p l =
     (case table_get tbl k of
        None \<Rightarrow> (False, tbl)
      | Some n \<Rightarrow>
          if parent n = p \<and> strict_equal (lft n) l then (False, tbl)
          else (True, table_put (n\<lparr>parent := p, lft := l\<rparr>) tbl))"

section \<open>Change records\<close>

datatype change_type =
  CREATED | UPDATED | DELETED | MOVED | COPIED | CREATED_RELATION | DELETED_RELATION

datatype source = CLIENTID | IGNORED_SOURCE

text \<open>
  A row of the change table: \<^verbatim>\<open>{ key, table, type, obj, mods, oldObj, from_key, source }\<close>.
  \<open>'k\<close> is the type of keys, \<open>'m\<close> of \<^verbatim>\<open>mods\<close>, \<open>'o\<close> of the objects of the table the
  change is about. A property the code leaves out is \<open>None\<close>; \<^verbatim>\<open>oldObj: null\<close> is \<open>None\<close>
  too.
\<close>

record ('k, 'm, 'o) change =
  key :: 'k
  table :: string
  ctype :: change_type
  obj :: "'o option"
  mods :: 'm
  oldObj :: "'o option"
  from_key :: "'k option"
  source :: "source option"

text \<open>
  The \<^verbatim>\<open>mods\<close> of the tree's change records: \<^verbatim>\<open>{ target, position }\<close> for a move and
  \<^verbatim>\<open>{ target, position, lft, channel_id }\<close> for a copy (\<open>mods_lft = Some None\<close> is
  \<^verbatim>\<open>lft: null\<close>).
\<close>

record tree_mods =
  mods_target :: string
  mods_position :: position
  mods_lft :: "number option option"
  mods_channel_id :: "jsval option"

type_synonym tree_change = "(string, tree_mods, tree_node) change"

text \<open>
  \<^verbatim>\<open>TABLE_NAMES.TREE\<close>. Modelled from the spec: the constants module is not among the
  sources; only that it is the tree table's name matters.
\<close>

definition TREE :: string where
  "TREE = ''tree''"

text \<open>
  The part of the local store the tree engine touches: the tree table, the change table
  (rows in the order they were put), the content node table, and how many ids
  \<^verbatim>\<open>uuid4()\<close> has drawn so far.
\<close>

record tree_state =
  tree :: "tree_node list"
  changes :: "tree_change list"
  contentnode :: "string \<rightharpoonup> obj"
  next_uuid :: nat

section \<open>Tree.resolveParent and Tree.getNewParentAndSiblings\<close>

definition resolveParent :: "tree_node list \<Rightarrow> string \<Rightarrow> position \<Rightarrow> error + string" where
  "resolveParent tbl target position =
     (if position = FIRST_CHILD \<or> position = LAST_CHILD then Inr target
      else (case table_get tbl target of
              Some node \<Rightarrow> Inr (parent node)
            | None \<Rightarrow> Inl RangeError))"

definition getNewParentAndSiblings ::
    "tree_node list \<Rightarrow> string \<Rightarrow> position \<Rightarrow> error + (string \<times> tree_node list)" where
  "getNewParentAndSiblings tbl target position =
     (case resolveParent tbl target position of
        Inl e \<Rightarrow> Inl e
      | Inr p \<Rightarrow> Inr (p, where_parent_sortBy_lft tbl p))"

section \<open>Tree.getNewSortOrder\<close>

text \<open>\<^verbatim>\<open>xs[i]\<close>: \<^verbatim>\<open>undefined\<close> outside the array, also for a negative index.\<close>

definition js_nth :: "'a list \<Rightarrow> int \<Rightarrow> 'a option" where
  "js_nth xs i = (if 0 \<le> i \<and> i < int (length xs) then Some (xs ! nat i) else None)"

text \<open>\<^verbatim>\<open>xs.slice(-1)[0]\<close>: the last element, \<^verbatim>\<open>undefined\<close> for the empty array.\<close>

definition slice_last :: "'a list \<Rightarrow> 'a option" where
  "slice_last xs = (if xs = [] then None else Some (last xs))"

text \<open>lodash \<^verbatim>\<open>findIndex\<close>: the index of the first match, \<open>-1\<close> when there is none.\<close>

fun findIndex :: "('a \<Rightarrow> bool) \<Rightarrow> 'a list \<Rightarrow> int" where
  "findIndex P [] = - 1"
| "findIndex P (x # xs) =
     (if P x then 0 else (let i = findIndex P xs in if i < 0 then - 1 else i + 1))"

text \<open>\<^verbatim>\<open>s.id === id\<close>, where reading \<^verbatim>\<open>id\<close> of \<^verbatim>\<open>undefined\<close> throws.\<close>

definition id_is :: "tree_node option \<Rightarrow> string \<Rightarrow> error + bool" where
  "id_is s i = (case s of None \<Rightarrow> Inl TypeError | Some n \<Rightarrow> Inr (node_id n = i))"

text \<open>\<^verbatim>\<open>s.lft\<close> as a number, where reading \<^verbatim>\<open>lft\<close> of \<^verbatim>\<open>undefined\<close> throws.\<close>

definition lft_of :: "tree_node option \<Rightarrow> error + number" where
  "lft_of s = (case s of None \<Rightarrow> Inl TypeError | Some n \<Rightarrow> Inr (to_number (lft n)))"

text \<open>
  The result is \<open>Inr None\<close> for \<^verbatim>\<open>null\<close>. The four disjuncts of the no-op test each start
  with a test of \<open>position\<close>, so at most one of them reads the siblings.
\<close>

definition getNewSortOrder ::
    "string \<Rightarrow> string \<Rightarrow> position \<Rightarrow> tree_node list \<Rightarrow> error + number option" where
  "getNewSortOrder i target position siblings =
     (let targetNodeIndex = findIndex (\<lambda>s. node_id s = target) siblings in
      case (if position = FIRST_CHILD then id_is (js_nth siblings 0) i
            else if position = LAST_CHILD then id_is (slice_last siblings) i
            else if position = LEFT \<and> targetNodeIndex > 0
              then id_is (js_nth siblings (targetNodeIndex - 1)) i
            else if position = RIGHT \<and> targetNodeIndex < int (length siblings) - 2
              then id_is (js_nth siblings (targetNodeIndex + 1)) i
            else Inr False) of
        Inl e \<Rightarrow> Inl e
      | Inr noop \<Rightarrow>
          (if noop then Inr None
           else if position = FIRST_CHILD then
             (case lft_of (js_nth siblings 0) of
                Inl e \<Rightarrow> Inl e
              | Inr l \<Rightarrow> Inr (Some (num_half l)))
           else if position = LAST_CHILD then
             (case lft_of (slice_last siblings) of
                Inl e \<Rightarrow> Inl e
              | Inr l \<Rightarrow> Inr (Some (num_add l (Num 1))))
           else if position = LEFT then
             (let leftSort = (case js_nth siblings (targetNodeIndex - 1) of
                                Some s \<Rightarrow> to_number (lft s)
                              | None \<Rightarrow> Num 0) in
              case lft_of (js_nth siblings targetNodeIndex) of
                Inl e \<Rightarrow> Inl e
              | Inr l \<Rightarrow> Inr (Some (num_half (num_add leftSort l))))
           else if position = RIGHT then
             (case (case js_nth siblings (targetNodeIndex + 1) of
                      Some s \<Rightarrow> Inr (to_number (lft s))
                    | None \<Rightarrow>
                        (case lft_of (js_nth siblings targetNodeIndex) of
                           Inl e \<Rightarrow> Inl e
                         | Inr l \<Rightarrow> Inr (num_add l (Num 2)))) of
                Inl e \<Rightarrow> Inl e
              | Inr rightSort \<Rightarrow>
                  (case lft_of (js_nth siblings targetNodeIndex) of
                     Inl e \<Rightarrow> Inl e
                   | Inr l \<Rightarrow> Inr (Some (num_half (num_add l rightSort)))))
           else Inr None))"

subsection \<open>The ordering rule in the words of the specification\<close>

text \<open>
  The place of \<open>target\<close> among the siblings, its left and right neighbours, and the
  value the specification gives for each position, for siblings that all have an \<open>lft\<close>
  and with the sums and the halves taken as JavaScript takes them.
\<close>

definition target_place :: "string \<Rightarrow> tree_node list \<Rightarrow> nat" where
  "target_place target siblings = length (takeWhile (\<lambda>s. node_id s \<noteq> target) siblings)"

definition spec_sort_order :: "string \<Rightarrow> position \<Rightarrow> tree_node list \<Rightarrow> number" where
  "spec_sort_order target position siblings =
     (let k = target_place target siblings;
          target_lft = the (lft (siblings ! k)) in
      case position of
        FIRST_CHILD \<Rightarrow> num_half (the (lft (hd siblings)))
      | LAST_CHILD \<Rightarrow> num_add (the (lft (last siblings))) (Num 1)
      | LEFT \<Rightarrow>
          num_half (num_add (if k = 0 then Num 0 else the (lft (siblings ! (k - 1)))) target_lft)
      | RIGHT \<Rightarrow>
          num_half (num_add target_lft
             (if Suc k < length siblings then the (lft (siblings ! Suc k))
              else num_add target_lft (Num 2)))
      | OTHER s \<Rightarrow> NaN)"

text \<open>
  The no-op in the words of the specification: the node is already first, already
  last, or already next to \<open>target\<close> on the requested side.
\<close>

definition already_in_place :: "string \<Rightarrow> string \<Rightarrow> position \<Rightarrow> tree_node list \<Rightarrow> bool" where
  "already_in_place i target position siblings =
     (let k = target_place target siblings in
      case position of
        FIRST_CHILD \<Rightarrow> node_id (hd siblings) = i
      | LAST_CHILD \<Rightarrow> node_id (last siblings) = i
      | LEFT \<Rightarrow> 0 < k \<and> node_id (siblings ! (k - 1)) = i
      | RIGHT \<Rightarrow> Suc k < length siblings \<and> node_id (siblings ! Suc k) = i
      | OTHER s \<Rightarrow> False)"

section \<open>Tree.tableMove\<close>

text \<open>
  What \<^verbatim>\<open>tableMove\<close> resolves with: \<^verbatim>\<open>{ id, parent, lft }\<close> after an update, the whole new
  row after a put.
\<close>

datatype moved = MovedFields string string "number option" | MovedNode tree_node

text \<open>
  A rejection leaves no state: \<^verbatim>\<open>move\<close> runs \<^verbatim>\<open>tableMove\<close> in one transaction, which a
  rejection aborts. The change tracker that listens to the store's writes is not part
  of the sources and not modelled.
\<close>

definition tableMove ::
    "tree_state \<Rightarrow> string \<Rightarrow> string \<Rightarrow> position \<Rightarrow> error + (moved \<times> tree_state)" where
  "tableMove st i target position =
     (if position \<notin> validPositions then Inl Rejected
      else case getNewParentAndSiblings (tree st) target position of
        Inl e \<Rightarrow> Inl e
      | Inr (p, siblings) \<Rightarrow>
          (case (if siblings \<noteq> [] then
                   (case getNewSortOrder i target position siblings of
                      Inl e \<Rightarrow> Inl e
                    | Inr l \<Rightarrow> Inr (l, target, position))
                 else Inr (Some (Num 1), p, LAST_CHILD)) of
             Inl e \<Rightarrow> Inl e
           | Inr (l, target', position') \<Rightarrow>
               (let oldObj = table_get (tree st) i;
                    (updated, tbl1) = table_update_row (tree st) i p l;
                    moved_change =
                      \<lparr>key = i, table = TREE, ctype = MOVED, obj = None,
                       mods = \<lparr>mods_target = target', mods_position = position',
                               mods_lft = None, mods_channel_id = None\<rparr>,
                       oldObj = oldObj, from_key = None, source = Some CLIENTID\<rparr>
                in if updated then
                     Inr (MovedFields i p l,
                          st\<lparr>tree := tbl1, changes := changes st @ [moved_change]\<rparr>)
                   else
                     (case table_get tbl1 p of
                        None \<Rightarrow> Inl TypeError
                      | Some parentNode \<Rightarrow>
                          (let data = \<lparr>node_id = i, parent = p, lft = l,
                                       tree_id = tree_id parentNode,
                                       channel_id = channel_id parentNode,
                                       source_id = None, level = None\<rparr>
                           in Inr (MovedNode data,
                                   st\<lparr>tree := table_put data tbl1,
                                      changes := changes st @ [moved_change]\<rparr>))))))"

section \<open>Tree.tableCopy and Tree.copy\<close>

subsection \<open>Tree.tableCopy\<close>

text \<open>
  \<^verbatim>\<open>uuid4()\<close> draws a random id. The model takes the sequence of the ids drawn as a
  parameter \<open>uuid4 :: nat \<Rightarrow> string\<close>; the state counts the draws.
\<close>

definition tableCopy ::
    "(nat \<Rightarrow> string) \<Rightarrow> tree_state \<Rightarrow> string \<Rightarrow> string \<Rightarrow> position \<Rightarrow> change_type \<Rightarrow>
     error + (tree_node \<times> tree_state)" where
  "tableCopy uuid4 st i target position changeType =
     (if position \<notin> validPositions then Inl Rejected
      else case getNewParentAndSiblings (tree st) target position of
        Inl e \<Rightarrow> Inl e
      | Inr (p, siblings) \<Rightarrow>
          (case (if siblings \<noteq> [] then
                   (case getNewSortOrder i target position siblings of
                      Inl e \<Rightarrow> Inl e
                    | Inr l \<Rightarrow> Inr (l, target, position))
                 else Inr (Some (Num 1), p, LAST_CHILD)) of
             Inl e \<Rightarrow> Inl e
           | Inr (l, target', position') \<Rightarrow>
               (case (table_get (tree st) i, table_get (tree st) p) of
                  (Some node, Some parentNode) \<Rightarrow>
                    (let data = \<lparr>node_id = uuid4 (next_uuid st), parent = node_id parentNode,
                                 lft = l, tree_id = tree_id parentNode,
                                 channel_id = channel_id node, source_id = Some i,
                                 level = map_option (\<lambda>v. v + 1) (level parentNode)\<rparr>;
                         copied_change =
                           \<lparr>key = node_id data, table = TREE, ctype = changeType, obj = None,
                            mods = \<lparr>mods_target = target', mods_position = position',
                                    mods_lft = Some l, mods_channel_id = channel_id node\<rparr>,
                            oldObj = None, from_key = Some i, source = Some CLIENTID\<rparr>
                     in Inr (data,
                             st\<lparr>tree := table_put data (tree st),
                                changes := changes st @ [copied_change],
                                next_uuid := Suc (next_uuid st)\<rparr>))
                | _ \<Rightarrow> Inl TypeError)))"

subsection \<open>Tree.copy\<close>

text \<open>
  \<^verbatim>\<open>Tree.copy\<close> is a chain of promises. What runs between two requests to the store is
  atomic; the requests of the calls that are under way at the same time (the copies of
  the children, which \<^verbatim>\<open>Promise.all\<close> starts together) are served by the store in an
  order that the code does not fix. The model is a step relation on the store and the
  calls under way, in which any call that waits for the store may be served next.

  A call of \<^verbatim>\<open>copy\<close> is in one of these states: its transaction with \<^verbatim>\<open>tableCopy\<close> is
  requested (\<open>Copying\<close>); the copy \<open>data\<close> is made and the children of the copied node
  are being read (\<open>Reading\<close>); the copies of the children of one chunk are under way
  (\<open>Waiting\<close>, with the results of the chunks before and the chunks to come); the
  results are assembled and the transaction with \<^verbatim>\<open>bulkPut\<close> is requested (\<open>Putting\<close>); the
  promise is resolved with the results, or rejected.
\<close>

datatype call =
    Copying string string position
  | Reading string tree_node
  | Waiting tree_node "tree_node list list" "call list" "tree_node list list"
  | Putting "tree_node list"
  | Resolved "tree_node list"
  | Failed error

text \<open>The call as \<^verbatim>\<open>copy\<close> starts it: a position outside the enumeration throws at once.\<close>

definition copy_call :: "string \<Rightarrow> string \<Rightarrow> position \<Rightarrow> call" where
  "copy_call i target position =
     (if position \<notin> validPositions then Failed TypeError else Copying i target position)"

text \<open>\<^verbatim>\<open>ContentNode.table.bulkPut(results.map(result => ({ id: result.id })))\<close>.\<close>

definition bulkPut_ids :: "(string \<rightharpoonup> obj) \<Rightarrow> tree_node list \<Rightarrow> (string \<rightharpoonup> obj)" where
  "bulkPut_ids tbl results =
     fold (\<lambda>r m. m(node_id r \<mapsto> [''id'' \<mapsto> JStr (node_id r)])) results tbl"

text \<open>
  The last \<^verbatim>\<open>then\<close> of \<^verbatim>\<open>copy\<close>: the results are returned as they are for the change type
  \<open>COPIED\<close>, and after the ids were put into the content node table otherwise.
\<close>

definition finish :: "change_type \<Rightarrow> tree_node list \<Rightarrow> call" where
  "finish changeType results =
     (if changeType = COPIED then Resolved results else Putting results)"

text \<open>lodash \<^verbatim>\<open>chunk(things, size)\<close>.\<close>

function chunk :: "nat \<Rightarrow> 'a list \<Rightarrow> 'a list list" where
  "chunk n xs = (if n = 0 \<or> xs = [] then [] else take n xs # chunk n (drop n xs))"
  by pat_completeness auto
termination
  by (relation "measure (\<lambda>(n, xs). length xs)") auto

declare chunk.simps [simp del]

text \<open>
  Modelled from the spec: \<^verbatim>\<open>promiseChunk\<close> (module \<^verbatim>\<open>shared/utils\<close>) is not among the
  sources. The specification has it traverse in chunks of bounded size: the callback
  is called with one chunk after the other, each once the promise of the one before is
  resolved, and the arrays it resolves with are concatenated. The callback calls
  \<^verbatim>\<open>copy\<close> for every child of its chunk, with the copy \<open>data\<close> as the target. When no
  chunk is left, the arrays of the children's results are concatenated and \<open>data\<close> is
  put in front.
\<close>

definition next_chunk ::
    "change_type \<Rightarrow> tree_node \<Rightarrow> tree_node list list \<Rightarrow> tree_node list list \<Rightarrow> call" where
  "next_chunk changeType data done chunks =
     (case chunks of
        [] \<Rightarrow> finish changeType (data # concat done)
      | children # rest \<Rightarrow>
          Waiting data done
            (map (\<lambda>child. copy_call (node_id child) (node_id data) LAST_CHILD) children) rest)"

fun is_settled :: "call \<Rightarrow> bool" where
  "is_settled (Resolved results) = True"
| "is_settled (Failed e) = True"
| "is_settled c = False"

fun is_resolved :: "call \<Rightarrow> bool" where
  "is_resolved (Resolved results) = True"
| "is_resolved c = False"

fun results_of :: "call \<Rightarrow> tree_node list" where
  "results_of (Resolved results) = results"
| "results_of c = []"

text \<open>
  One step of one call: the store before, the call, the store after, the call after,
  and the calls that are left to run on their own. \<^verbatim>\<open>Promise.all\<close> rejects as soon as one
  of its promises is rejected; the calls of the others are not stopped, their results
  are dropped. A transaction that fails leaves the store as it was.
\<close>

inductive step ::
    "change_type \<Rightarrow> bool \<Rightarrow> (nat \<Rightarrow> string) \<Rightarrow> tree_state \<Rightarrow> call \<Rightarrow> tree_state \<Rightarrow> call \<Rightarrow>
     call list \<Rightarrow> bool"
  for changeType :: change_type and deep :: bool and uuid4 :: "nat \<Rightarrow> string" where
  copy_rejected:
    "tableCopy uuid4 st i target position changeType = Inl e \<Longrightarrow>
     step changeType deep uuid4 st (Copying i target position) st (Failed e) []"
| copied_deep:
    "tableCopy uuid4 st i target position changeType = Inr (data, st') \<Longrightarrow> deep \<Longrightarrow>
     step changeType deep uuid4 st (Copying i target position) st' (Reading i data) []"
| copied_shallow:
    "tableCopy uuid4 st i target position changeType = Inr (data, st') \<Longrightarrow> \<not> deep \<Longrightarrow>
     step changeType deep uuid4 st (Copying i target position) st' (finish changeType [data]) []"
| children_read:
    "step changeType deep uuid4 st (Reading i data) st
       (next_chunk changeType data [] (chunk 50 (where_parent_sortBy_lft (tree st) i))) []"
| child_step:
    "k < length calls \<Longrightarrow> step changeType deep uuid4 st (calls ! k) st' c' orphans \<Longrightarrow>
     step changeType deep uuid4 st (Waiting data done calls rest) st'
       (Waiting data done (calls[k := c']) rest) orphans"
| chunk_resolved:
    "list_all is_resolved calls \<Longrightarrow>
     step changeType deep uuid4 st (Waiting data done calls rest) st
       (next_chunk changeType data (done @ map results_of calls) rest) []"
| chunk_rejected:
    "k < length calls \<Longrightarrow> calls ! k = Failed e \<Longrightarrow>
     step changeType deep uuid4 st (Waiting data done calls rest) st (Failed e)
       (filter (\<lambda>c. \<not> is_settled c) calls)"
| ids_put:
    "step changeType deep uuid4 st (Putting results)
       (st\<lparr>contentnode := bulkPut_ids (contentnode st) results\<rparr>) (Resolved results) []"

text \<open>The store, the call of \<^verbatim>\<open>copy\<close> and the calls left to run on their own.\<close>

inductive run_step ::
    "change_type \<Rightarrow> bool \<Rightarrow> (nat \<Rightarrow> string) \<Rightarrow> tree_state \<times> call \<times> call list \<Rightarrow>
     tree_state \<times> call \<times> call list \<Rightarrow> bool"
  for changeType :: change_type and deep :: bool and uuid4 :: "nat \<Rightarrow> string" where
  of_the_call:
    "step changeType deep uuid4 st c st' c' new \<Longrightarrow>
     run_step changeType deep uuid4 (st, c, orphans) (st', c', orphans @ new)"
| of_an_orphan:
    "k < length orphans \<Longrightarrow> step changeType deep uuid4 st (orphans ! k) st' c' new \<Longrightarrow>
     run_step changeType deep uuid4 (st, c, orphans) (st', c, orphans[k := c'] @ new)"

text \<open>
  \<^verbatim>\<open>copy(id, target, position, deep, changeType)\<close> resolves with \<open>results\<close> in the store
  \<open>st'\<close>, for some order in which the store serves the requests.
\<close>

definition copy_returns ::
    "change_type \<Rightarrow> bool \<Rightarrow> (nat \<Rightarrow> string) \<Rightarrow> tree_state \<Rightarrow> string \<Rightarrow> string \<Rightarrow> position \<Rightarrow>
     tree_node list \<Rightarrow> tree_state \<Rightarrow> bool" where
  "copy_returns changeType deep uuid4 st i target position results st' \<longleftrightarrow>
     (\<exists>orphans. rtranclp (run_step changeType deep uuid4)
                  (st, copy_call i target position, []) (st', Resolved results, orphans))"

text \<open>
  The store \<open>st'\<close> is a later one than \<open>st\<close>: more ids were drawn, and the rows under the
  ids drawn before are as they were.
\<close>

definition extends :: "(nat \<Rightarrow> string) \<Rightarrow> tree_state \<Rightarrow> tree_state \<Rightarrow> bool" where
  "extends uuid4 st st' \<longleftrightarrow>
     next_uuid st \<le> next_uuid st'
     \<and> (\<forall>k < next_uuid st. table_get (tree st') (uuid4 k) = table_get (tree st) (uuid4 k))"

text \<open>
  A call that cannot be resolved: a copy of a node into itself; the reading of the
  children of a node whose copy is among them; a call waiting for such a call, or for
  chunks to come that hold the copy \<open>data\<close> itself; a rejected call.
\<close>

fun doomed :: "(nat \<Rightarrow> string) \<Rightarrow> tree_state \<Rightarrow> call \<Rightarrow> bool" where
  "doomed uuid4 st (Copying i target position) =
     (target = i \<and> (position = FIRST_CHILD \<or> position = LAST_CHILD))"
| "doomed uuid4 st (Reading i data) =
     (parent data = i \<and> table_get (tree st) (node_id data) = Some data
      \<and> (\<exists>k < next_uuid st. node_id data = uuid4 k))"
| "doomed uuid4 st (Waiting data done calls rest) =
     ((\<exists>c \<in> set calls. doomed uuid4 st c) \<or> (\<exists>n \<in> set (concat rest). node_id n = node_id data))"
| "doomed uuid4 st (Putting results) = False"
| "doomed uuid4 st (Resolved results) = False"
| "doomed uuid4 st (Failed e) = True"

section \<open>IndexedDBResource.where\<close>

text \<open>
  What the query code takes from its surroundings: whether the build is a production
  build (\<^verbatim>\<open>process.env.NODE_ENV\<close>), and the parts of JavaScript and of lodash that are
  not modelled in detail: lodash's partial comparison of a source value that is an
  array, and the relational operators on operands that are not two numbers or two
  strings.
\<close>

record js_env =
  production :: bool
  deep_match :: "jsval list \<Rightarrow> jsval option \<Rightarrow> bool"
  compare_other :: "string \<Rightarrow> jsval option \<Rightarrow> jsval \<Rightarrow> bool"

text \<open>
  A JavaScript object whose keys are iterated, as the list of its entries in insertion
  order; an assignment to a key it has replaces the value in place.
\<close>

type_synonym 'v js_object = "(string \<times> 'v) list"

fun js_set :: "string \<Rightarrow> 'v \<Rightarrow> 'v js_object \<Rightarrow> 'v js_object" where
  "js_set k v [] = [(k, v)]"
| "js_set k v (e # es) = (if fst e = k then (k, v) # es else e # js_set k v es)"

text \<open>\<^verbatim>\<open>Object.assign(target, source)\<close> on such objects.\<close>

definition js_assign :: "'v js_object \<Rightarrow> 'v js_object \<Rightarrow> 'v js_object" where
  "js_assign target src = fold (\<lambda>(k, v). js_set k v) src target"

text \<open>\<^verbatim>\<open>key.split('__')\<close>.\<close>

fun split_from :: "string \<Rightarrow> string \<Rightarrow> string list" where
  "split_from cur (c # d # cs) =
     (if c = CHR ''_'' \<and> d = CHR ''_'' then rev cur # split_from [] cs
      else split_from (c # cur) (d # cs))"
| "split_from cur [c] = [rev (c # cur)]"
| "split_from cur [] = [rev cur]"

definition split_SUFFIX_SEPERATOR :: "string \<Rightarrow> string list" where
  "split_SUFFIX_SEPERATOR k = split_from [] k"

definition VALID_SUFFIXES :: "string set" where
  "VALID_SUFFIXES = {''in'', ''gt'', ''gte'', ''lt'', ''lte''}"

text \<open>The four objects the parameters are partitioned into.\<close>

record where_partition =
  whereParams :: "jsval js_object"
  filterParams :: "jsval js_object"
  arrayParams :: "jsval js_object"
  suffixedParams :: "(jsval js_object) js_object"

text \<open>
  One round of the loop over \<^verbatim>\<open>Object.keys(params)\<close>. \<open>suffix\<close> is \<open>None\<close> when the key
  has no separator; an empty suffix is falsy as well.
\<close>

definition partition_step ::
    "string set \<Rightarrow> string \<times> jsval \<Rightarrow> where_partition \<Rightarrow> where_partition" where
  "partition_step indexFields kv P =
     (let parts = split_SUFFIX_SEPERATOR (fst kv);
          rootParam = hd parts;
          suffix = (case tl parts of [] \<Rightarrow> None | x # xs \<Rightarrow> Some x);
          truthy = (suffix \<noteq> None \<and> suffix \<noteq> Some [])
      in if truthy \<and> the suffix \<in> VALID_SUFFIXES \<and> suffix \<noteq> Some ''in'' then
           P\<lparr>suffixedParams :=
               js_set rootParam
                 (js_set (the suffix) (snd kv)
                    (case map_of (suffixedParams P) rootParam of None \<Rightarrow> [] | Some o' \<Rightarrow> o'))
                 (suffixedParams P)\<rparr>
         else if rootParam \<in> indexFields then
           (if suffix = Some ''in'' then P\<lparr>arrayParams := js_set rootParam (snd kv) (arrayParams P)\<rparr>
            else if \<not> truthy then P\<lparr>whereParams := js_set rootParam (snd kv) (whereParams P)\<rparr>
            else P)
         else P\<lparr>filterParams := js_set rootParam (snd kv) (filterParams P)\<rparr>)"

definition partition_params :: "string set \<Rightarrow> jsval js_object \<Rightarrow> where_partition" where
  "partition_params indexFields params =
     fold (partition_step indexFields) params
       \<lparr>whereParams = [], filterParams = [], arrayParams = [], suffixedParams = []\<rparr>"

subsection \<open>The store's queries\<close>

text \<open>
  A table of plain objects is the list of its rows in the order of the primary key.
  The values IndexedDB accepts as keys are numbers, strings and arrays of keys, ordered
  numbers first, then strings, then arrays; a row whose indexed property is not such a
  value is not in the index. A query that is handed a value that is not a valid key is
  rejected by the store (\<open>StoreError\<close>). This is the store library at its
  boundary: membership and equality lookups on an index, and a linear filter.
\<close>

fun valid_key :: "jsval \<Rightarrow> bool" where
  "valid_key (JNum x) = True"
| "valid_key (JStr x) = True"
| "valid_key (JArr xs) = list_all valid_key xs"
| "valid_key JNull = False"
| "valid_key (JBool b) = False"

fun key_less :: "jsval \<Rightarrow> jsval \<Rightarrow> bool"
  and keys_less :: "jsval list \<Rightarrow> jsval list \<Rightarrow> bool" where
  "key_less (JNum a) (JNum b) = (a < b)"
| "key_less (JNum a) (JStr b) = True"
| "key_less (JNum a) (JArr b) = True"
| "key_less (JStr a) (JStr b) = (a < b)"
| "key_less (JStr a) (JArr b) = True"
| "key_less (JArr xs) (JArr ys) = keys_less xs ys"
| "key_less a b = False"
| "keys_less [] [] = False"
| "keys_less [] (y # ys) = True"
| "keys_less (x # xs) [] = False"
| "keys_less (x # xs) (y # ys) = (key_less x y \<or> (x = y \<and> keys_less xs ys))"

text \<open>
  A list in the order of an index: by key, elements of equal key in their old order.
\<close>

fun insert_by_key :: "('a \<Rightarrow> jsval) \<Rightarrow> 'a \<Rightarrow> 'a list \<Rightarrow> 'a list" where
  "insert_by_key f x [] = [x]"
| "insert_by_key f x (y # ys) =
     (if key_less (f y) (f x) then y # insert_by_key f x ys else x # y # ys)"

definition sort_by_key :: "('a \<Rightarrow> jsval) \<Rightarrow> 'a list \<Rightarrow> 'a list" where
  "sort_by_key f xs = foldr (insert_by_key f) xs []"

definition index_order :: "string \<Rightarrow> obj list \<Rightarrow> obj list" where
  "index_order f rows = sort_by_key (\<lambda>row. the (row f)) rows"

definition indexed :: "string \<Rightarrow> obj \<Rightarrow> bool" where
  "indexed f row = (case row f of None \<Rightarrow> False | Some v \<Rightarrow> valid_key v)"

text \<open>
  \<^verbatim>\<open>table.where(field).anyOf(value)\<close>: \<^verbatim>\<open>anyOf\<close> takes an array of keys, or a single
  key.
\<close>

definition anyOf_keys :: "jsval \<Rightarrow> jsval list" where
  "anyOf_keys v = (case v of JArr vs \<Rightarrow> vs | _ \<Rightarrow> [v])"

definition table_anyOf :: "obj list \<Rightarrow> string \<Rightarrow> jsval \<Rightarrow> error + obj list" where
  "table_anyOf tbl f v =
     (if list_all valid_key (anyOf_keys v) then
        Inr (index_order f
               (filter (\<lambda>row. indexed f row \<and> the (row f) \<in> set (anyOf_keys v)) tbl))
      else Inl StoreError)"

text \<open>\<^verbatim>\<open>table.where(whereParams)\<close>: the rows equal to every value on its index.\<close>

definition table_where :: "obj list \<Rightarrow> jsval js_object \<Rightarrow> error + obj list" where
  "table_where tbl crit =
     (if list_all (\<lambda>(f, v). valid_key v) crit then
        Inr (filter (\<lambda>row. \<forall>(f, v) \<in> set crit. row f = Some v) tbl)
      else Inl StoreError)"

subsection \<open>The filter functions\<close>

text \<open>
  lodash \<^verbatim>\<open>matches(filterParams)\<close>: every property of the source is compared with the
  row's. A primitive source value is compared with \<^verbatim>\<open>===\<close>; an array by lodash's partial
  comparison.
\<close>

definition field_matches :: "js_env \<Rightarrow> jsval \<Rightarrow> jsval option \<Rightarrow> bool" where
  "field_matches env v x = (case v of JArr vs \<Rightarrow> deep_match env vs x | _ \<Rightarrow> x = Some v)"

definition matches :: "js_env \<Rightarrow> jsval js_object \<Rightarrow> obj \<Rightarrow> bool" where
  "matches env src row = (\<forall>(f, v) \<in> set src. field_matches env v (row f))"

text \<open>
  \<^verbatim>\<open>item[key] < value\<close> and its three relatives, on two numbers or two strings; the
  other operand types are left to \<open>compare_other\<close>.
\<close>

definition suffix_filter :: "js_env \<Rightarrow> string \<Rightarrow> string \<Rightarrow> jsval \<Rightarrow> (obj \<Rightarrow> bool) option" where
  "suffix_filter env k suffix v =
     (if suffix \<in> {''lt'', ''lte'', ''gt'', ''gte''} then
        Some (\<lambda>item.
          (case (item k, v) of
             (Some (JNum a), JNum b) \<Rightarrow>
               (if suffix = ''lt'' then a < b else if suffix = ''lte'' then a \<le> b
                else if suffix = ''gt'' then a > b else a \<ge> b)
           | (Some (JStr a), JStr b) \<Rightarrow>
               (if suffix = ''lt'' then a < b else if suffix = ''lte'' then a \<le> b
                else if suffix = ''gt'' then a > b else a \<ge> b)
           | (x, y) \<Rightarrow> compare_other env suffix x y))
      else None)"

text \<open>
  The array handed to \<^verbatim>\<open>overEvery\<close>: one function per suffix of each suffixed
  parameter, then \<open>filterFn\<close>, with the \<^verbatim>\<open>undefined\<close> ones filtered out.
\<close>

definition suffix_filters :: "js_env \<Rightarrow> (jsval js_object) js_object \<Rightarrow> (obj \<Rightarrow> bool) list" where
  "suffix_filters env sp =
     concat (map (\<lambda>(k, sfx). List.map_filter (\<lambda>(suffix, v). suffix_filter env k suffix v) sfx) sp)"

definition overEvery :: "(obj \<Rightarrow> bool) list \<Rightarrow> obj \<Rightarrow> bool" where
  "overEvery fs item = list_all (\<lambda>f. f item) fs"

subsection \<open>The query\<close>

text \<open>
  The two development-only diagnostics call \<^verbatim>\<open>console.warning\<close>. The console has no
  such method (the method is \<^verbatim>\<open>console.warn\<close>), so the call throws a \<open>TypeError\<close>. With
  more than one array parameter \<open>collection\<close> is never assigned: it stays \<^verbatim>\<open>undefined\<close>
  (\<open>None\<close>), and the calls of \<^verbatim>\<open>collection.filter\<close> and \<^verbatim>\<open>collection.toArray\<close> throw.
\<close>

definition IndexedDBResource_where ::
    "js_env \<Rightarrow> string set \<Rightarrow> obj list \<Rightarrow> jsval js_object \<Rightarrow> error + obj list" where
  "IndexedDBResource_where env indexFields tbl params =
     (let P = partition_params indexFields params in
      case (if arrayParams P \<noteq> [] then
              (if length (arrayParams P) = 1 then
                 (if \<not> production env \<and> length (whereParams P) > 1 then Inl TypeError
                  else Inr (Some (table_anyOf tbl (fst (hd (arrayParams P)))
                                    (snd (hd (arrayParams P)))),
                            js_assign (filterParams P) (whereParams P)))
               else if \<not> production env then Inl TypeError
               else Inr (None, filterParams P))
            else if whereParams P \<noteq> [] then
              Inr (Some (table_where tbl (whereParams P)), filterParams P)
            else Inr (Some (Inr tbl), filterParams P)) of
        Inl e \<Rightarrow> Inl e
      | Inr (collection, filterParams') \<Rightarrow>
          (let filterFn = (if filterParams' \<noteq> [] then Some (matches env filterParams') else None);
               filterFn' =
                 (if suffixedParams P \<noteq> [] then
                    Some (overEvery (suffix_filters env (suffixedParams P) @
                                       (case filterFn of None \<Rightarrow> [] | Some f \<Rightarrow> [f])))
                  else filterFn)
           in case collection of
                None \<Rightarrow> Inl TypeError
              | Some rows \<Rightarrow>
                  (case rows of
                     Inl e \<Rightarrow> Inl e
                   | Inr rs \<Rightarrow>
                       (case filterFn' of
                          None \<Rightarrow> Inr rs
                        | Some f \<Rightarrow> Inr (filter f rs)))))"

section \<open>Resource.where\<close>

definition REFRESH_INTERVAL :: real where
  "REFRESH_INTERVAL = 60"

definition LAST_FETCHED :: string where
  "LAST_FETCHED = ''__last_fetch''"

text \<open>
  \<^verbatim>\<open>obj[LAST_FETCHED] + REFRESH_INTERVAL * 1000 < now\<close>. A number is added to,
  \<^verbatim>\<open>undefined\<close> gives \<^verbatim>\<open>NaN\<close>, which is less than nothing; \<^verbatim>\<open>null\<close> and booleans count
  as 0 and 1. A string or an array is concatenated and compared as a number, which
  \<open>stale_other\<close> stands for.
\<close>

definition object_is_stale :: "(jsval \<Rightarrow> real \<Rightarrow> bool) \<Rightarrow> real \<Rightarrow> obj \<Rightarrow> bool" where
  "object_is_stale stale_other now ob =
     (case ob LAST_FETCHED of
        None \<Rightarrow> False
      | Some (JNum t) \<Rightarrow> t + REFRESH_INTERVAL * 1000 < now
      | Some JNull \<Rightarrow> 0 + REFRESH_INTERVAL * 1000 < now
      | Some (JBool b) \<Rightarrow> (if b then 1 else 0) + REFRESH_INTERVAL * 1000 < now
      | Some v \<Rightarrow> stale_other v now)"

definition objectsAreStale :: "(jsval \<Rightarrow> real \<Rightarrow> bool) \<Rightarrow> real \<Rightarrow> obj list \<Rightarrow> bool" where
  "objectsAreStale stale_other now objs = list_ex (object_is_stale stale_other now) objs"

text \<open>
  What the promise of \<^verbatim>\<open>Resource.where\<close> settles with: the local rows, or what the
  remote request resolved with.
\<close>

datatype 'r where_result = Local "obj list" | Remote 'r

text \<open>
  \<open>request\<close> is \<^verbatim>\<open>this.requestCollection\<close>: for given parameters, what its promise
  settles with. The second component of the result lists the requests the call
  issued. The request of the stale case is issued and its promise dropped: the result
  does not read it.
\<close>

definition Resource_where ::
    "js_env \<Rightarrow> (jsval \<Rightarrow> real \<Rightarrow> bool) \<Rightarrow> string set \<Rightarrow> obj list \<Rightarrow> real \<Rightarrow>
     (jsval js_object \<Rightarrow> error + 'r) \<Rightarrow> jsval js_object \<Rightarrow>
     (error + 'r where_result) \<times> jsval js_object list" where
  "Resource_where env stale_other indexFields tbl now request params =
     (case IndexedDBResource_where env indexFields tbl params of
        Inl e \<Rightarrow> (Inl e, [])
      | Inr objs \<Rightarrow>
          if objs = [] then
            ((case request params of Inl e \<Rightarrow> Inl e | Inr d \<Rightarrow> Inr (Remote d)), [params])
          else if objectsAreStale stale_other now objs then (Inr (Local objs), [params])
          else (Inr (Local objs), []))"

section \<open>Resource.fetchCollection\<close>


text \<open>
  \<^verbatim>\<open>map[change.key]\<close> and \<^verbatim>\<open>collectedChanges[type][id]\<close> are property accesses: the key
  is converted to a string. \<open>nts\<close> is the conversion of a number to a string, which is
  not modelled.
\<close>

fun js_to_string :: "(real \<Rightarrow> string) \<Rightarrow> jsval \<Rightarrow> string"
  and js_join :: "(real \<Rightarrow> string) \<Rightarrow> jsval list \<Rightarrow> string" where
  "js_to_string nts JNull = ''null''"
| "js_to_string nts (JBool b) = (if b then ''true'' else ''false'')"
| "js_to_string nts (JNum x) = nts x"
| "js_to_string nts (JStr s) = s"
| "js_to_string nts (JArr xs) = js_join nts xs"
| "js_join nts [] = []"
| "js_join nts [x] = (if x = JNull then [] else js_to_string nts x)"
| "js_join nts (x # y # ys) =
     (if x = JNull then [] else js_to_string nts x) @ '','' @ js_join nts (y # ys)"














text \<open>
  A response is a bare array, or a page object with the array under \<^verbatim>\<open>results\<close> (the
  first component holds the page's other properties).
\<close>

datatype response = ArrayResponse "obj list" | PageResponse obj "obj list"






section \<open>The change merger\<close>







section \<open>Example data\<close>

definition mk_node :: "string \<Rightarrow> string \<Rightarrow> real option \<Rightarrow> tree_node" where
  "mk_node i p l =
     \<lparr>node_id = i, parent = p, lft = map_option Num l, tree_id = Some (JNum 1),
      channel_id = Some (JStr ''ch''), source_id = None, level = Some 1\<rparr>"

definition three_siblings :: "tree_node list" where
  "three_siblings =
     [mk_node ''a'' ''p'' (Some 1), mk_node ''b'' ''p'' (Some 2), mk_node ''c'' ''p'' (Some 3)]"

definition two_siblings :: "tree_node list" where
  "two_siblings = [mk_node ''a'' ''p'' (Some 1), mk_node ''b'' ''p'' (Some 2)]"

definition example_state :: tree_state where
  "example_state =
     \<lparr>tree = three_siblings @ [mk_node ''p'' ''root'' (Some 1)], changes = [],
      contentnode = Map.empty, next_uuid = 0\<rparr>"

text \<open>The table of the query scenario: three rows, with \<open>id\<close> 1, 2, 3 and \<open>x\<close> 1, 2, 1.\<close>

definition item1 :: obj where
  "item1 = [''id'' \<mapsto> JNum 1, ''x'' \<mapsto> JNum 1]"

definition item2 :: obj where
  "item2 = [''id'' \<mapsto> JNum 2, ''x'' \<mapsto> JNum 2]"

definition item3 :: obj where
  "item3 = [''id'' \<mapsto> JNum 3, ''x'' \<mapsto> JNum 1]"

text \<open>
  A production build in which the parts of JavaScript that the model leaves open are
  fixed to "no match".
\<close>

definition example_env :: js_env where
  "example_env =
     \<lparr>production = True, deep_match = (\<lambda>vs x. False), compare_other = (\<lambda>s x y. False)\<rparr>"

definition example_stale_other :: "jsval \<Rightarrow> real \<Rightarrow> bool" where
  "example_stale_other v now = False"

text \<open>A row fetched at time 0, and a request that fails.\<close>

definition old_row :: obj where
  "old_row = [''id'' \<mapsto> JStr ''K'', ''__last_fetch'' \<mapsto> JNum 0]"

definition failing_request :: "jsval js_object \<Rightarrow> error + response" where
  "failing_request params = Inl RequestFailure"









text \<open>
  A sequence of ids for \<^verbatim>\<open>uuid4\<close>: \<open>u\<close>, \<open>uu\<close>, \<open>uuu\<close>, and so on.
\<close>

definition example_uuid4 :: "nat \<Rightarrow> string" where
  "example_uuid4 n = replicate (Suc n) CHR ''u''"

text \<open>A table with the single node \<open>x\<close>.\<close>

definition single_state :: tree_state where
  "single_state =
     \<lparr>tree = [mk_node ''x'' ''root'' (Some 1)], changes = [], contentnode = Map.empty,
      next_uuid = 0\<rparr>"

section \<open>Helper facts\<close>

lemma findIndex_ge: "- 1 \<le> findIndex P xs"
  by (induction xs) (auto simp: Let_def)

lemma findIndex_takeWhile:
  "\<exists>x \<in> set xs. P x \<Longrightarrow> findIndex P xs = int (length (takeWhile (\<lambda>x. \<not> P x) xs))"
proof (induction xs)
  case Nil
  then show ?case by simp
next
  case (Cons a xs)
  show ?case
  proof (cases "P a")
    case True
    then show ?thesis by simp
  next
    case False
    with Cons.prems have "\<exists>x \<in> set xs. P x" by simp
    with Cons.IH have "findIndex P xs = int (length (takeWhile (\<lambda>x. \<not> P x) xs))" .
    with False show ?thesis by (simp add: Let_def)
  qed
qed

lemma takeWhile_less_length:
  "\<exists>x \<in> set xs. P x \<Longrightarrow> length (takeWhile (\<lambda>x. \<not> P x) xs) < length xs"
  by (induction xs) auto

lemma findIndex_absent: "\<forall>x \<in> set xs. \<not> P x \<Longrightarrow> findIndex P xs = - 1"
  by (induction xs) (auto simp: Let_def)

lemma js_nth_nat: "i < length xs \<Longrightarrow> js_nth xs (int i) = Some (xs ! i)"
  by (simp add: js_nth_def)

lemma js_nth_0: "xs \<noteq> [] \<Longrightarrow> js_nth xs 0 = Some (hd xs)"
  by (cases xs) (simp_all add: js_nth_def)

lemma js_nth_succ:
  "js_nth xs (int k + 1) = (if Suc k < length xs then Some (xs ! Suc k) else None)"
  by (simp add: js_nth_def nat_add_distrib)

lemma js_nth_pred:
  "js_nth xs (int (Suc j) - 1) = (if j < length xs then Some (xs ! j) else None)"
  by (simp add: js_nth_def)

lemma table_get_put_same: "table_get (table_put n tbl) (node_id n) = Some n"
  by (induction tbl) (auto simp: table_get_def)

lemma table_get_put_other:
  "k \<noteq> node_id n \<Longrightarrow> table_get (table_put n tbl) k = table_get tbl k"
  by (induction tbl) (auto simp: table_get_def)

lemma table_get_node_id: "table_get tbl k = Some n \<Longrightarrow> node_id n = k"
  by (auto simp: table_get_def dest: find_Some_iff [THEN iffD1])

section \<open>Rounding to a double\<close>

lemma round_half_even_of_int: "round_half_even (of_int m) = m"
  by (simp add: round_half_even_def)

lemma floor_log2:
  assumes "2 powi e \<le> x" and "x < 2 powi (e + 1)"
  shows "\<lfloor>log 2 x\<rfloor> = e"
proof -
  have pos: "0 < x" using assms(1) by (smt (verit) zero_less_power_int)
  have pw: "(2::real) powi k = 2 powr of_int k" for k by (simp add: powr_real_of_int')
  from assms have "2 powr of_int e \<le> x" "x < 2 powr of_int (e + 1)"
    unfolding pw by simp_all
  then have "2 powr of_int e \<le> x" "x < 2 powr (of_int e + 1)" by simp_all
  then have "of_int e \<le> log 2 x" "log 2 x < of_int e + 1"
    using pos by (simp_all add: le_log_iff log_less_iff)
  then show ?thesis by linarith
qed

lemma to_double_exact:
  assumes lo: "2 powi e \<le> \<bar>x\<bar>" and hi: "\<bar>x\<bar> < 2 powi (e + 1)"
    and emin: "- 1022 \<le> e" and emax: "e < 1024"
    and int: "x / 2 powi (e - 52) = of_int m"
  shows "to_double x = Num x"
proof -
  from lo have nz: "x \<noteq> 0" by (smt (verit) zero_less_power_int)
  from floor_log2 [OF lo hi] emin have ue: "ulp_exponent x = e - 52"
    by (simp add: ulp_exponent_def)
  have q: "(2::real) powi (e - 52) \<noteq> 0" by simp
  from int have x: "x = of_int m * 2 powi (e - 52)" using q by (simp add: field_simps)
  have "(2::real) powi (e + 1) \<le> 2 powi 1024" using emax by (intro power_int_increasing) simp_all
  with hi have small: "\<bar>x\<bar> < 2 ^ 1024" by simp
  show ?thesis
    using nz small unfolding to_double_def ue Let_def int round_half_even_of_int x [symmetric]
    by simp
qed

lemma to_double_1: "to_double 1 = Num 1"
  by (rule to_double_exact [where e = 0 and m = "2 ^ 52"]) (simp_all add: power_int_minus)

lemma to_double_2: "to_double 2 = Num 2"
  by (rule to_double_exact [where e = 1 and m = "2 ^ 52"]) (simp_all add: power_int_minus)

lemma to_double_3: "to_double 3 = Num 3"
  by (rule to_double_exact [where e = 1 and m = "3 * 2 ^ 51"]) (simp_all add: power_int_minus)

lemma to_double_3_2: "to_double (3 / 2) = Num (3 / 2)"
  by (rule to_double_exact [where e = 0 and m = "3 * 2 ^ 51"]) (simp_all add: power_int_minus)

lemma round_half_even_tie: "even m \<Longrightarrow> round_half_even (of_int m + 1 / 2) = m"
proof -
  have "\<lfloor>of_int m + 1 / 2 :: real\<rfloor> = m" by linarith
  then show "even m \<Longrightarrow> round_half_even (of_int m + 1 / 2) = m"
    by (simp add: round_half_even_def Let_def)
qed

lemma to_double_2_53_1: "to_double (2 ^ 53 + 1) = Num (2 ^ 53)"
proof -
  have "\<lfloor>log 2 \<bar>2 ^ 53 + 1 :: real\<bar>\<rfloor> = 53"
    by (rule floor_log2) simp_all
  then have ue: "ulp_exponent (2 ^ 53 + 1) = 1" by (simp add: ulp_exponent_def)
  have q: "(2::real) powi (1::int) = 2" by simp
  have arg: "(2 ^ 53 + 1) / (2::real) = of_int (2 ^ 52) + 1 / 2" by simp
  have r: "round_half_even (of_int (2 ^ 52) + 1 / 2) = 2 ^ 52"
    by (rule round_half_even_tie) simp
  have val: "of_int (round_half_even ((2 ^ 53 + 1) / 2 powi 1)) * 2 powi 1 = (2 ^ 53 :: real)"
    unfolding q arg r by simp
  show ?thesis
    unfolding to_double_def ue Let_def val by simp
qed

text \<open>Half of the smallest double above 0 is 0.\<close>

lemma to_double_half_of_smallest: "num_half (Num (2 powi (- 1074))) = Num 0"
proof -
  let ?x = "(2::real) powi (- 1074) / 2"
  have x: "?x = 2 powi (- 1075)"
    using power_int_add [of "2::real" "- 1074" "- 1"] by (simp add: power_int_minus)
  have "\<lfloor>log 2 \<bar>?x\<bar>\<rfloor> = - 1075"
    unfolding x by (rule floor_log2) (simp_all add: power_int_strict_increasing)
  then have ue: "ulp_exponent ?x = - 1074" by (simp add: ulp_exponent_def)
  have nz: "?x \<noteq> 0" by simp
  have q: "?x / 2 powi (- 1074) = of_int 0 + 1 / 2" by simp
  have r: "round_half_even (of_int 0 + 1 / 2) = 0" by (rule round_half_even_tie) simp
  have "to_double ?x = Num 0"
    unfolding to_double_def ue Let_def q r using nz by simp
  then show ?thesis by simp
qed

lemma num_add_1_2: "num_add (Num 1) (Num 2) = Num 3"
  using to_double_3 by simp

lemma num_half_3: "num_half (Num 3) = Num (3 / 2)"
  using to_double_3_2 by simp

lemma set_sort_by: "set (sort_by lt xs) = set xs"
proof -
  have ins: "set (insert_by lt x ys) = insert x (set ys)" for x ys
    by (induction ys) auto
  show ?thesis unfolding sort_by_def by (induction xs) (simp_all add: ins)
qed

lemma to_number_the: "l \<noteq> None \<Longrightarrow> to_number l = the l"
  by (auto simp: to_number_def)

section \<open>Tree.getNewSortOrder: the value it returns\<close>

text \<open>What the function computes for each position, once the index of the target is known.\<close>

lemma getNewSortOrder_FIRST_CHILD:
  "siblings \<noteq> [] \<Longrightarrow> getNewSortOrder i target FIRST_CHILD siblings =
     (if node_id (hd siblings) = i then Inr None
      else Inr (Some (num_half (to_number (lft (hd siblings))))))"
  by (simp add: getNewSortOrder_def js_nth_0 id_is_def lft_of_def)

lemma getNewSortOrder_LAST_CHILD:
  "siblings \<noteq> [] \<Longrightarrow> getNewSortOrder i target LAST_CHILD siblings =
     (if node_id (last siblings) = i then Inr None
      else Inr (Some (num_add (to_number (lft (last siblings))) (Num 1))))"
  by (simp add: getNewSortOrder_def slice_last_def id_is_def lft_of_def)

lemma getNewSortOrder_LEFT:
  assumes idx: "findIndex (\<lambda>s. node_id s = target) siblings = int k"
    and klt: "k < length siblings"
  shows "getNewSortOrder i target LEFT siblings =
     (if 0 < k \<and> node_id (siblings ! (k - 1)) = i then Inr None
      else Inr (Some (num_half (num_add
              (if k = 0 then Num 0 else to_number (lft (siblings ! (k - 1))))
              (to_number (lft (siblings ! k)))))))"
proof (cases k)
  case 0
  with idx klt show ?thesis
    by (simp add: getNewSortOrder_def js_nth_def id_is_def lft_of_def)
next
  case (Suc j)
  with idx klt show ?thesis
    by (simp add: getNewSortOrder_def js_nth_nat js_nth_pred id_is_def lft_of_def Let_def
        del: of_nat_Suc)
qed

lemma getNewSortOrder_RIGHT:
  assumes idx: "findIndex (\<lambda>s. node_id s = target) siblings = int k"
    and klt: "k < length siblings"
  shows "getNewSortOrder i target RIGHT siblings =
     (if Suc (Suc k) < length siblings \<and> node_id (siblings ! Suc k) = i then Inr None
      else Inr (Some (num_half (num_add (to_number (lft (siblings ! k)))
              (if Suc k < length siblings then to_number (lft (siblings ! Suc k))
               else num_add (to_number (lft (siblings ! k))) (Num 2))))))"
proof -
  have c: "(int k < int (length siblings) - 2) = (Suc (Suc k) < length siblings)"
    by linarith
  from idx klt show ?thesis
    by (simp add: getNewSortOrder_def Let_def c js_nth_nat js_nth_succ id_is_def lft_of_def)
qed

lemma target_index:
  assumes "target \<in> node_id ` set siblings"
  shows "findIndex (\<lambda>s. node_id s = target) siblings = int (target_place target siblings)"
    and "target_place target siblings < length siblings"
proof -
  from assms have ex: "\<exists>x \<in> set siblings. node_id x = target" by auto
  show "findIndex (\<lambda>s. node_id s = target) siblings = int (target_place target siblings)"
    using findIndex_takeWhile [OF ex] by (simp add: target_place_def)
  show "target_place target siblings < length siblings"
    using takeWhile_less_length [OF ex] by (simp add: target_place_def)
qed

text \<open>
  Claim C2, as amended. For a non-empty list of siblings that all have an \<open>lft\<close> (and,
  for the two sibling-relative positions, a target that is one of them), and a node
  that is not already in the requested place, \<open>getNewSortOrder\<close> returns the value the
  specification gives, computed in double arithmetic: the double nearest to half of the
  first sibling's \<open>lft\<close> for first-child, to the last sibling's \<open>lft\<close> plus 1 for
  last-child; for left-of the double nearest to half of the double nearest to the sum of
  the left neighbour's \<open>lft\<close> (0 if there is none) and the target's; for right-of the same
  of the target's \<open>lft\<close> and the right neighbour's (the double nearest to the target's plus
  2 if there is none). The order of the siblings by \<open>lft\<close> is not needed.
\<close>

theorem getNewSortOrder_value:
  assumes ne: "siblings \<noteq> []"
    and nums: "\<forall>s \<in> set siblings. lft s \<noteq> None"
    and valid: "position \<in> validPositions"
    and tgt: "position = LEFT \<or> position = RIGHT \<Longrightarrow> target \<in> node_id ` set siblings"
    and moving: "\<not> already_in_place i target position siblings"
  shows "getNewSortOrder i target position siblings =
           Inr (Some (spec_sort_order target position siblings))"
proof (cases position)
  case FIRST_CHILD
  from ne nums have "to_number (lft (hd siblings)) = the (lft (hd siblings))"
    by (intro to_number_the) simp
  with ne moving FIRST_CHILD show ?thesis
    by (simp add: getNewSortOrder_FIRST_CHILD spec_sort_order_def already_in_place_def)
next
  case LAST_CHILD
  from ne nums have "to_number (lft (last siblings)) = the (lft (last siblings))"
    by (intro to_number_the) simp
  with ne moving LAST_CHILD show ?thesis
    by (simp add: getNewSortOrder_LAST_CHILD spec_sort_order_def already_in_place_def)
next
  case LEFT
  with tgt have mem: "target \<in> node_id ` set siblings" by simp
  define k where "k = target_place target siblings"
  from target_index(2) [OF mem] have klt: "k < length siblings" by (simp add: k_def)
  have eq: "getNewSortOrder i target LEFT siblings =
     (if 0 < k \<and> node_id (siblings ! (k - 1)) = i then Inr None
      else Inr (Some (num_half (num_add
              (if k = 0 then Num 0 else to_number (lft (siblings ! (k - 1))))
              (to_number (lft (siblings ! k)))))))"
    unfolding k_def by (rule getNewSortOrder_LEFT [OF target_index [OF mem]])
  from nums klt have t: "to_number (lft (siblings ! k)) = the (lft (siblings ! k))"
    by (intro to_number_the) simp
  from nums klt have l: "to_number (lft (siblings ! (k - 1))) = the (lft (siblings ! (k - 1)))"
    by (intro to_number_the) (simp add: less_imp_diff_less)
  from moving LEFT show ?thesis
    by (simp add: eq t l [unfolded One_nat_def] spec_sort_order_def already_in_place_def
        k_def [symmetric])
next
  case RIGHT
  with tgt have mem: "target \<in> node_id ` set siblings" by simp
  define k where "k = target_place target siblings"
  from target_index(2) [OF mem] have klt: "k < length siblings" by (simp add: k_def)
  have eq: "getNewSortOrder i target RIGHT siblings =
     (if Suc (Suc k) < length siblings \<and> node_id (siblings ! Suc k) = i then Inr None
      else Inr (Some (num_half (num_add (to_number (lft (siblings ! k)))
              (if Suc k < length siblings then to_number (lft (siblings ! Suc k))
               else num_add (to_number (lft (siblings ! k))) (Num 2))))))"
    unfolding k_def by (rule getNewSortOrder_RIGHT [OF target_index [OF mem]])
  from nums klt have t: "to_number (lft (siblings ! k)) = the (lft (siblings ! k))"
    by (intro to_number_the) simp
  have r: "to_number (lft (siblings ! Suc k)) = the (lft (siblings ! Suc k))"
    if "Suc k < length siblings"
    using nums that by (intro to_number_the) simp
  from moving RIGHT show ?thesis
    by (auto simp: eq t r spec_sort_order_def already_in_place_def k_def [symmetric] Let_def)
next
  case (OTHER s)
  with valid show ?thesis by (simp add: validPositions_def)
qed

text \<open>
  The scenario of the claim: siblings with \<open>lft\<close> 1, 2 and 3, a new node inserted left
  of the middle one gets 1.5, strictly between its neighbours.
\<close>

theorem getNewSortOrder_value_witness:
  "getNewSortOrder ''n'' ''b'' LEFT three_siblings = Inr (Some (Num (3 / 2)))
   \<and> (1 :: real) < 3 / 2 \<and> (3 / 2 :: real) < 2"
proof -
  have ne: "three_siblings \<noteq> []" by (simp add: three_siblings_def)
  have nums: "\<forall>s \<in> set three_siblings. lft s \<noteq> None"
    by (simp add: three_siblings_def mk_node_def)
  have valid: "LEFT \<in> validPositions" by (simp add: validPositions_def)
  have mem: "''b'' \<in> node_id ` set three_siblings"
    by (simp add: three_siblings_def mk_node_def)
  have moving: "\<not> already_in_place ''n'' ''b'' LEFT three_siblings"
    by (simp add: already_in_place_def target_place_def three_siblings_def mk_node_def)
  have v: "spec_sort_order ''b'' LEFT three_siblings = Num (3 / 2)"
    by (simp add: spec_sort_order_def target_place_def three_siblings_def mk_node_def
        to_double_3 to_double_3_2)
  have "getNewSortOrder ''n'' ''b'' LEFT three_siblings =
          Inr (Some (spec_sort_order ''b'' LEFT three_siblings))"
    using getNewSortOrder_value [OF ne nums valid mem moving] .
  then show ?thesis by (simp add: v)
qed

text \<open>
  Claim C2 as stated fails where the exact value is not a double: after a last sibling
  with \<open>lft\<close> \<open>2\<^sup>5\<^sup>3\<close> the new node does not get that \<open>lft\<close> plus 1 but, the sum being
  rounded, the same \<open>lft\<close> again.
\<close>

theorem getNewSortOrder_last_child_counterexample:
  "getNewSortOrder ''n'' ''p'' LAST_CHILD [mk_node ''a'' ''p'' (Some (2 ^ 53))]
     = Inr (Some (Num (2 ^ 53)))
   \<and> (2 :: real) ^ 53 \<noteq> 2 ^ 53 + 1"
proof -
  have "getNewSortOrder ''n'' ''p'' LAST_CHILD [mk_node ''a'' ''p'' (Some (2 ^ 53))]
          = Inr (Some (to_double (2 ^ 53 + 1)))"
    by (simp add: getNewSortOrder_LAST_CHILD mk_node_def to_number_def del: power_numeral)
  then show ?thesis by (simp only: to_double_2_53_1) simp
qed

text \<open>
  Likewise a first-child insert before a sibling with the smallest \<open>lft\<close> above 0 gives 0,
  not a value between 0 and that \<open>lft\<close>.
\<close>

lemma getNewSortOrder_first_child_underflow:
  "getNewSortOrder ''n'' ''p'' FIRST_CHILD [mk_node ''a'' ''p'' (Some (2 powi (- 1074)))]
     = Inr (Some (Num 0))"
  by (simp add: getNewSortOrder_FIRST_CHILD mk_node_def to_number_def
      to_double_half_of_smallest [simplified])

section \<open>Tree.getNewSortOrder: the no-op test\<close>

text \<open>
  Claim C3. The test for a node that already sits right of the target reads
  \<^verbatim>\<open>targetNodeIndex < siblings.length - 2\<close>, which leaves out the target that is the
  last but one sibling. With siblings \<open>a\<close> (\<open>lft\<close> 1) and \<open>b\<close> (\<open>lft\<close> 2), moving \<open>b\<close> to
  the right of \<open>a\<close>, where it already is, does not return \<^verbatim>\<open>null\<close> but the midpoint 1.5.
\<close>

theorem getNewSortOrder_right_of_last_but_one:
  "getNewSortOrder ''b'' ''a'' RIGHT two_siblings = Inr (Some (Num (3 / 2)))"
  by (simp add: getNewSortOrder_def two_siblings_def mk_node_def js_nth_def id_is_def
      lft_of_def to_number_def to_double_3 to_double_3_2)

text \<open>With a third sibling after \<open>b\<close> the same move is recognised as a no-op.\<close>

lemma getNewSortOrder_right_of_inner:
  "getNewSortOrder ''b'' ''a'' RIGHT three_siblings = Inr None"
  by (simp add: getNewSortOrder_def three_siblings_def mk_node_def js_nth_def id_is_def)

section \<open>Tree.resolveParent\<close>

text \<open>
  Claim C8. \<open>resolveParent\<close> resolves to the target itself for first-child and
  last-child. For left-of and right-of it resolves to the parent of the target's row,
  and rejects with a \<open>RangeError\<close> when the tree table has no row for the target.
\<close>

theorem resolveParent_cases:
  "(position = FIRST_CHILD \<or> position = LAST_CHILD \<longrightarrow>
      resolveParent tbl target position = Inr target)
   \<and> (position = LEFT \<or> position = RIGHT \<longrightarrow>
        (\<forall>node. table_get tbl target = Some node \<longrightarrow>
           resolveParent tbl target position = Inr (parent node))
        \<and> (target \<notin> node_id ` set tbl \<longrightarrow>
             resolveParent tbl target position = Inl RangeError))"
proof -
  have absent: "target \<notin> node_id ` set tbl \<Longrightarrow> table_get tbl target = None"
    by (auto simp: table_get_def find_None_iff)
  show ?thesis
    by (auto simp: resolveParent_def absent)
qed

theorem resolveParent_cases_witness:
  "resolveParent three_siblings ''b'' FIRST_CHILD = Inr ''b''
   \<and> resolveParent three_siblings ''zz'' LAST_CHILD = Inr ''zz''
   \<and> resolveParent three_siblings ''b'' LEFT = Inr ''p''
   \<and> resolveParent three_siblings ''zz'' RIGHT = Inl RangeError"
proof -
  have g: "table_get three_siblings ''b'' = Some (mk_node ''b'' ''p'' (Some 2))"
    by (simp add: table_get_def three_siblings_def mk_node_def)
  have a: "''zz'' \<notin> node_id ` set three_siblings"
    by (simp add: three_siblings_def mk_node_def)
  from resolveParent_cases [of FIRST_CHILD three_siblings "''b''"]
    resolveParent_cases [of LAST_CHILD three_siblings "''zz''"]
    resolveParent_cases [of LEFT three_siblings "''b''"]
    resolveParent_cases [of RIGHT three_siblings "''zz''"] g a
  show ?thesis by (simp add: mk_node_def)
qed

section \<open>Tree.tableMove on a node that is already in place\<close>

text \<open>
  Claim C10. When the siblings are not empty and \<open>getNewSortOrder\<close> returns \<^verbatim>\<open>null\<close>
  for a node whose row has an \<open>lft\<close>, \<open>tableMove\<close> still succeeds, replaces the row by one
  with the resolved parent and \<open>lft\<close> \<^verbatim>\<open>null\<close>, and appends a \<open>MOVED\<close> change record
  holding the old row.
\<close>

theorem tableMove_noop_overwrites_lft:
  assumes valid: "position \<in> validPositions"
    and sibs: "getNewParentAndSiblings (tree st) target position = Inr (p, siblings)"
    and ne: "siblings \<noteq> []"
    and noop: "getNewSortOrder i target position siblings = Inr None"
    and node: "table_get (tree st) i = Some n"
    and has_lft: "lft n \<noteq> None"
  shows "tableMove st i target position =
           Inr (MovedFields i p None,
                st\<lparr>tree := table_put (n\<lparr>parent := p, lft := None\<rparr>) (tree st),
                   changes := changes st @
                     [\<lparr>key = i, table = TREE, ctype = MOVED, obj = None,
                       mods = \<lparr>mods_target = target, mods_position = position,
                               mods_lft = None, mods_channel_id = None\<rparr>,
                       oldObj = Some n, from_key = None, source = Some CLIENTID\<rparr>]\<rparr>)
         \<and> table_get (table_put (n\<lparr>parent := p, lft := None\<rparr>) (tree st)) i
             = Some (n\<lparr>parent := p, lft := None\<rparr>)"
proof -
  have nid: "node_id n = i"
    using node by (rule table_get_node_id)
  have upd: "table_update_row (tree st) i p None
               = (True, table_put (n\<lparr>parent := p, lft := None\<rparr>) (tree st))"
    using node has_lft by (auto simp: table_update_row_def strict_equal_def)
  have 1: "tableMove st i target position =
           Inr (MovedFields i p None,
                st\<lparr>tree := table_put (n\<lparr>parent := p, lft := None\<rparr>) (tree st),
                   changes := changes st @
                     [\<lparr>key = i, table = TREE, ctype = MOVED, obj = None,
                       mods = \<lparr>mods_target = target, mods_position = position,
                               mods_lft = None, mods_channel_id = None\<rparr>,
                       oldObj = Some n, from_key = None, source = Some CLIENTID\<rparr>]\<rparr>)"
    using valid ne by (simp add: tableMove_def sibs noop node upd)
  have 2: "table_get (table_put (n\<lparr>parent := p, lft := None\<rparr>) (tree st)) i
             = Some (n\<lparr>parent := p, lft := None\<rparr>)"
    using table_get_put_same [of "n\<lparr>parent := p, lft := None\<rparr>" "tree st"] nid by simp
  from 1 2 show ?thesis by simp
qed

lemma example_siblings_of_c:
  "getNewParentAndSiblings (tree example_state) ''c'' LEFT = Inr (''p'', three_siblings)"
  by (simp add: getNewParentAndSiblings_def resolveParent_def example_state_def
      three_siblings_def mk_node_def table_get_def where_parent_sortBy_lft_def to_number_def
      sort_by_def)

lemma example_b_left_of_c: "getNewSortOrder ''b'' ''c'' LEFT three_siblings = Inr None"
  by (simp add: getNewSortOrder_def three_siblings_def mk_node_def js_nth_def id_is_def)

lemma example_row_b:
  "table_get (tree example_state) ''b'' = Some (mk_node ''b'' ''p'' (Some 2))"
  by (simp add: example_state_def three_siblings_def mk_node_def table_get_def)

text \<open>
  Node \<open>b\<close> sits between \<open>a\<close> and \<open>c\<close>; moving it to the left of \<open>c\<close> changes nothing
  in the order, and yet its \<open>lft\<close> 2 is replaced by \<^verbatim>\<open>null\<close> and a change is recorded.
\<close>

theorem tableMove_noop_overwrites_lft_witness:
  "(\<exists>r st'. tableMove example_state ''b'' ''c'' LEFT = Inr (r, st')
      \<and> map_option lft (table_get (tree st') ''b'') = Some None
      \<and> map ctype (changes st') = [MOVED])
   \<and> map_option lft (table_get (tree example_state) ''b'') = Some (Some (Num 2))"
proof -
  have v: "LEFT \<in> validPositions" by (simp add: validPositions_def)
  have ne: "three_siblings \<noteq> []" by (simp add: three_siblings_def)
  have l: "lft (mk_node ''b'' ''p'' (Some 2)) \<noteq> None" by (simp add: mk_node_def)
  have c: "changes example_state = []" by (simp add: example_state_def)
  note t = tableMove_noop_overwrites_lft
    [OF v example_siblings_of_c ne example_b_left_of_c example_row_b l]
  from t c show ?thesis by (simp add: example_row_b mk_node_def)
qed

section \<open>IndexedDBResource.where: membership parameters\<close>

lemma js_set_fresh: "k \<notin> fst ` set es \<Longrightarrow> js_set k v es = es @ [(k, v)]"
  by (induction es) auto

lemma js_assign_fresh:
  "distinct (map fst src) \<Longrightarrow> fst ` set src \<inter> fst ` set tgt = {} \<Longrightarrow>
   js_assign tgt src = tgt @ src"
proof (induction src arbitrary: tgt)
  case Nil
  then show ?case by (simp add: js_assign_def)
next
  case (Cons e src)
  obtain k v where e: "e = (k, v)" by (cases e)
  from Cons.prems e have fresh: "k \<notin> fst ` set tgt" by auto
  from Cons.prems e have "fst ` set src \<inter> fst ` set (tgt @ [(k, v)]) = {}" by auto
  with Cons.prems have "js_assign (tgt @ [(k, v)]) src = (tgt @ [(k, v)]) @ src"
    by (intro Cons.IH) simp_all
  with fresh e show ?case by (simp add: js_assign_def js_set_fresh)
qed

text \<open>
  The partition of a parameter list with one membership parameter \<open>mkey\<close> on the indexed
  field \<open>k\<close>, all other keys being bare field names.
\<close>

lemma partition_step_cases:
  assumes split: "split_SUFFIX_SEPERATOR mkey = [k, ''in'']" and idx: "k \<in> indexFields"
    and ok: "ky = mkey \<or> split_SUFFIX_SEPERATOR ky = [ky]"
  shows "partition_step indexFields (ky, v) P =
     (if ky = mkey then P\<lparr>arrayParams := js_set k v (arrayParams P)\<rparr>
      else if ky \<in> indexFields then P\<lparr>whereParams := js_set ky v (whereParams P)\<rparr>
      else P\<lparr>filterParams := js_set ky v (filterParams P)\<rparr>)"
proof (cases "ky = mkey")
  case True
  with split idx show ?thesis by (simp add: partition_step_def VALID_SUFFIXES_def)
next
  case False
  with ok have "split_SUFFIX_SEPERATOR ky = [ky]" by simp
  with False show ?thesis by (simp add: partition_step_def)
qed

lemma fold_whereParams:
  assumes split: "split_SUFFIX_SEPERATOR mkey = [k, ''in'']" and idx: "k \<in> indexFields"
  shows "distinct (map fst ps) \<Longrightarrow>
    \<forall>ky \<in> fst ` set ps. ky = mkey \<or> split_SUFFIX_SEPERATOR ky = [ky] \<Longrightarrow>
    fst ` set ps \<inter> fst ` set (whereParams P) = {} \<Longrightarrow>
    whereParams (fold (partition_step indexFields) ps P) =
      whereParams P @ filter (\<lambda>(ky, v). ky \<noteq> mkey \<and> ky \<in> indexFields) ps"
proof (induction ps arbitrary: P)
  case Nil
  then show ?case by simp
next
  case (Cons e ps)
  obtain ky v where e: "e = (ky, v)" by (cases e)
  from Cons.prems(2) e have ok: "ky = mkey \<or> split_SUFFIX_SEPERATOR ky = [ky]" by simp
  note st = partition_step_cases [OF split idx ok, of v P]
  from Cons.prems(3) e have fr: "ky \<notin> fst ` set (whereParams P)" by auto
  have w: "whereParams (partition_step indexFields e P) =
      whereParams P @ filter (\<lambda>(ky, v). ky \<noteq> mkey \<and> ky \<in> indexFields) [e]"
    using e fr by (simp add: st js_set_fresh)
  have "fst ` set ps \<inter> fst ` set (whereParams (partition_step indexFields e P)) = {}"
    using Cons.prems(1,3) e unfolding w by (auto split: if_splits)
  with Cons.prems have "whereParams (fold (partition_step indexFields) ps (partition_step indexFields e P)) =
      whereParams (partition_step indexFields e P) @ filter (\<lambda>(ky, v). ky \<noteq> mkey \<and> ky \<in> indexFields) ps"
    by (intro Cons.IH) simp_all
  then show ?case unfolding w by simp
qed

lemma fold_filterParams:
  assumes split: "split_SUFFIX_SEPERATOR mkey = [k, ''in'']" and idx: "k \<in> indexFields"
  shows "distinct (map fst ps) \<Longrightarrow>
    \<forall>ky \<in> fst ` set ps. ky = mkey \<or> split_SUFFIX_SEPERATOR ky = [ky] \<Longrightarrow>
    fst ` set ps \<inter> fst ` set (filterParams P) = {} \<Longrightarrow>
    filterParams (fold (partition_step indexFields) ps P) =
      filterParams P @ filter (\<lambda>(ky, v). ky \<noteq> mkey \<and> ky \<notin> indexFields) ps"
proof (induction ps arbitrary: P)
  case Nil
  then show ?case by simp
next
  case (Cons e ps)
  obtain ky v where e: "e = (ky, v)" by (cases e)
  from Cons.prems(2) e have ok: "ky = mkey \<or> split_SUFFIX_SEPERATOR ky = [ky]" by simp
  note st = partition_step_cases [OF split idx ok, of v P]
  from Cons.prems(3) e have fr: "ky \<notin> fst ` set (filterParams P)" by auto
  have w: "filterParams (partition_step indexFields e P) =
      filterParams P @ filter (\<lambda>(ky, v). ky \<noteq> mkey \<and> ky \<notin> indexFields) [e]"
    using e fr by (simp add: st js_set_fresh)
  have "fst ` set ps \<inter> fst ` set (filterParams (partition_step indexFields e P)) = {}"
    using Cons.prems(1,3) e unfolding w by (auto split: if_splits)
  with Cons.prems have "filterParams (fold (partition_step indexFields) ps (partition_step indexFields e P)) =
      filterParams (partition_step indexFields e P) @ filter (\<lambda>(ky, v). ky \<noteq> mkey \<and> ky \<notin> indexFields) ps"
    by (intro Cons.IH) simp_all
  then show ?case unfolding w by simp
qed

lemma fold_arrayParams:
  assumes split: "split_SUFFIX_SEPERATOR mkey = [k, ''in'']" and idx: "k \<in> indexFields"
  shows "distinct (map fst ps) \<Longrightarrow>
    \<forall>ky \<in> fst ` set ps. ky = mkey \<or> split_SUFFIX_SEPERATOR ky = [ky] \<Longrightarrow>
    k \<notin> fst ` set (arrayParams P) \<Longrightarrow>
    arrayParams (fold (partition_step indexFields) ps P) =
      arrayParams P @ map (\<lambda>(ky, v). (k, v)) (filter (\<lambda>(ky, v). ky = mkey) ps)"
proof (induction ps arbitrary: P)
  case Nil
  then show ?case by simp
next
  case (Cons e ps)
  obtain ky v where e: "e = (ky, v)" by (cases e)
  from Cons.prems(2) e have ok: "ky = mkey \<or> split_SUFFIX_SEPERATOR ky = [ky]" by simp
  note st = partition_step_cases [OF split idx ok, of v P]
  show ?case
  proof (cases "ky = mkey")
    case True
    with Cons.prems(1) e have none: "filter (\<lambda>(ky, v). ky = mkey) ps = []"
      by (force simp: filter_empty_conv)
    have rest: "\<forall>ky \<in> fst ` set ps. split_SUFFIX_SEPERATOR ky = [ky]"
      using Cons.prems(1,2) e True by force
    have keep: "arrayParams (fold (partition_step indexFields) ps Q) = arrayParams Q" for Q
      using rest
    proof (induction ps arbitrary: Q)
      case Nil
      then show ?case by simp
    next
      case (Cons a ps)
      obtain k2 v2 where a: "a = (k2, v2)" by (cases a)
      from Cons.prems a have "split_SUFFIX_SEPERATOR k2 = [k2]" by simp
      then have "arrayParams (partition_step indexFields a Q) = arrayParams Q"
        using a by (simp add: partition_step_def)
      with Cons show ?case by simp
    qed
    have st': "partition_step indexFields (mkey, v) P =
        P\<lparr>arrayParams := js_set k v (arrayParams P)\<rparr>"
      using st True by simp
    from True e Cons.prems(3) show ?thesis
      by (simp add: keep st' js_set_fresh none)
  next
    case False
    then have "arrayParams (partition_step indexFields e P) = arrayParams P"
      using e by (simp add: st)
    moreover from this Cons.prems
    have "arrayParams (fold (partition_step indexFields) ps (partition_step indexFields e P)) =
      arrayParams (partition_step indexFields e P) @ map (\<lambda>(ky, v). (k, v)) (filter (\<lambda>(ky, v). ky = mkey) ps)"
      by (intro Cons.IH) simp_all
    ultimately show ?thesis using False e by simp
  qed
qed

lemma fold_suffixedParams:
  "\<forall>ky \<in> fst ` set ps. (\<exists>k. split_SUFFIX_SEPERATOR ky = [k, ''in'']) \<or> split_SUFFIX_SEPERATOR ky = [ky] \<Longrightarrow>
    suffixedParams (fold (partition_step indexFields) ps P) = suffixedParams P"
proof (induction ps arbitrary: P)
  case Nil
  then show ?case by simp
next
  case (Cons e ps)
  obtain ky v where e: "e = (ky, v)" by (cases e)
  from Cons.prems e have "(\<exists>k. split_SUFFIX_SEPERATOR ky = [k, ''in'']) \<or> split_SUFFIX_SEPERATOR ky = [ky]"
    by simp
  then have "suffixedParams (partition_step indexFields e P) = suffixedParams P"
    using e by (auto simp: partition_step_def Let_def)
  with Cons show ?case by simp
qed


lemma filter_key_distinct:
  "distinct (map fst ps) \<Longrightarrow> (mkey, mval) \<in> set ps \<Longrightarrow>
   filter (\<lambda>(ky, v). ky = mkey) ps = [(mkey, mval)]"
proof (induction ps)
  case Nil
  then show ?case by simp
next
  case (Cons e ps)
  show ?case
  proof (cases "e = (mkey, mval)")
    case True
    with Cons.prems(1) have "mkey \<notin> fst ` set ps" by auto
    then have "filter (\<lambda>(ky, v). ky = mkey) ps = []"
      by (force simp: filter_empty_conv)
    with True show ?thesis by simp
  next
    case False
    with Cons.prems have mem: "(mkey, mval) \<in> set ps" by simp
    then have "mkey \<in> fst ` set ps" by force
    with Cons.prems(1) have "fst e \<noteq> mkey" by auto
    with Cons mem show ?thesis by (cases e) simp
  qed
qed

text \<open>
  One membership parameter \<open>mkey\<close> on the indexed field \<open>k\<close>, all other parameters bare
  field names: in a production build, or with at most one of them on an indexed field,
  the query returns the rows of the membership match that satisfy every other
  parameter.
\<close>

lemma where_single_in_postfilter:
  assumes dist: "distinct (map fst params)"
    and mem: "(mkey, mval) \<in> set params"
    and split: "split_SUFFIX_SEPERATOR mkey = [k, ''in'']"
    and idx: "k \<in> indexFields"
    and bare: "\<forall>(ky, v) \<in> set params. ky \<noteq> mkey \<longrightarrow> split_SUFFIX_SEPERATOR ky = [ky]"
    and quiet: "production env
                \<or> length (filter (\<lambda>(ky, v). ky \<noteq> mkey \<and> ky \<in> indexFields) params) \<le> 1"
    and rows: "table_anyOf tbl k mval = Inr rows"
  shows "IndexedDBResource_where env indexFields tbl params =
           Inr (filter (\<lambda>item. \<forall>(f, v) \<in> set params. f \<noteq> mkey \<longrightarrow> field_matches env v (item f))
                  rows)"
proof -
  let ?P = "partition_params indexFields params"
  let ?W = "filter (\<lambda>(ky, v). ky \<noteq> mkey \<and> ky \<in> indexFields) params"
  let ?F = "filter (\<lambda>(ky, v). ky \<noteq> mkey \<and> ky \<notin> indexFields) params"
  let ?E = "\<lparr>whereParams = [], filterParams = [], arrayParams = [], suffixedParams = []\<rparr>"
  from bare have ok: "\<forall>ky \<in> fst ` set params. ky = mkey \<or> split_SUFFIX_SEPERATOR ky = [ky]"
    by force
  with split have ok2: "\<forall>ky \<in> fst ` set params.
      (\<exists>k. split_SUFFIX_SEPERATOR ky = [k, ''in'']) \<or> split_SUFFIX_SEPERATOR ky = [ky]"
    by auto
  have w: "whereParams ?P = ?W"
    using fold_whereParams [OF split idx dist ok, of ?E] by (simp add: partition_params_def)
  have f: "filterParams ?P = ?F"
    using fold_filterParams [OF split idx dist ok, of ?E] by (simp add: partition_params_def)
  have a: "arrayParams ?P = [(k, mval)]"
    using fold_arrayParams [OF split idx dist ok, of ?E] filter_key_distinct [OF dist mem]
    by (simp add: partition_params_def)
  have sfx: "suffixedParams ?P = []"
    using fold_suffixedParams [OF ok2, of indexFields ?E] by (simp add: partition_params_def)
  have dW: "distinct (map fst ?W)" using dist by (rule distinct_map_filter)
  have disj: "fst ` set ?W \<inter> fst ` set ?F = {}" by auto
  have assign: "js_assign ?F ?W = ?F @ ?W"
    using dW disj by (rule js_assign_fresh)
  have m: "matches env (?F @ ?W) =
      (\<lambda>item. \<forall>(f, v) \<in> set params. f \<noteq> mkey \<longrightarrow> field_matches env v (item f))"
    by (rule ext) (auto simp: matches_def)
  from quiet have q: "\<not> (\<not> production env \<and> 1 < length ?W)" by auto
  show ?thesis
  proof (cases "?F @ ?W = []")
    case True
    then have "\<forall>(f, v) \<in> set params. f = mkey" by (auto simp: filter_empty_conv)
    then have all: "filter (\<lambda>item. \<forall>(f, v) \<in> set params. f \<noteq> mkey \<longrightarrow> field_matches env v (item f)) rows = rows"
      by (auto simp: filter_id_conv)
    from True q show ?thesis
      unfolding all
      by (simp add: IndexedDBResource_where_def Let_def a w f sfx rows js_assign_def
          del: filter_append)
  next
    case False
    with q show ?thesis
      unfolding m [symmetric]
      by (simp add: IndexedDBResource_where_def Let_def a w f sfx assign rows del: filter_append)
  qed
qed

lemma scenario_partition:
  "partition_params {''id''} [(''id__in'', JArr [JNum 1, JNum 2, JNum 3]), (''x'', JNum 1)] =
     \<lparr>whereParams = [], filterParams = [(''x'', JNum 1)],
      arrayParams = [(''id'', JArr [JNum 1, JNum 2, JNum 3])], suffixedParams = []\<rparr>"
  by (simp add: partition_params_def partition_step_def split_SUFFIX_SEPERATOR_def
      VALID_SUFFIXES_def)

lemma scenario_anyOf:
  "table_anyOf [item1, item2, item3] ''id'' (JArr [JNum 1, JNum 2, JNum 3]) =
     Inr [item1, item2, item3]"
  by (simp add: table_anyOf_def anyOf_keys_def indexed_def item1_def item2_def item3_def
      index_order_def sort_by_key_def)

text \<open>
  The scenario of claim C5: on the three rows, \<^verbatim>\<open>where({id__in: [1, 2, 3], x: 1})\<close>
  returns the rows with \<open>id\<close> 1 and 3, in every build.
\<close>

lemma where_scenario:
  "IndexedDBResource_where env {''id''} [item1, item2, item3]
     [(''id__in'', JArr [JNum 1, JNum 2, JNum 3]), (''x'', JNum 1)] = Inr [item1, item3]"
  by (simp add: IndexedDBResource_where_def scenario_partition scenario_anyOf js_assign_def
        matches_def field_matches_def,
      simp add: item1_def item2_def item3_def)

lemma two_equalities_partition:
  "partition_params {''id'', ''name'', ''language''}
     [(''id__in'', a), (''name'', b), (''language'', c)] =
     \<lparr>whereParams = [(''name'', b), (''language'', c)], filterParams = [],
      arrayParams = [(''id'', a)], suffixedParams = []\<rparr>"
  by (simp add: partition_params_def partition_step_def split_SUFFIX_SEPERATOR_def
      VALID_SUFFIXES_def)

text \<open>
  Claim C5. Outside a production build, one membership parameter together with two
  equality parameters on indexed fields (here \<open>name\<close> and \<open>language\<close>) reaches the
  diagnostic that calls \<^verbatim>\<open>console.warning\<close>, and the query throws instead of returning
  the filtered membership match.
\<close>

theorem where_in_with_two_indexed_equalities_throws:
  "IndexedDBResource_where (env\<lparr>production := False\<rparr>) {''id'', ''name'', ''language''} tbl
     [(''id__in'', a), (''name'', b), (''language'', c)] = Inl TypeError"
  by (simp add: IndexedDBResource_where_def two_equalities_partition)

text \<open>
  Claim C6. With more than one membership parameter on indexed fields the query does
  not return: outside a production build the diagnostic throws, and in a production
  build \<open>collection\<close> is still \<^verbatim>\<open>undefined\<close> when it is filtered or read.
\<close>

theorem where_multiple_in_fails:
  assumes "1 < length (arrayParams (partition_params indexFields params))"
  shows "IndexedDBResource_where env indexFields tbl params = Inl TypeError"
proof -
  from assms have ne: "arrayParams (partition_params indexFields params) \<noteq> []"
    and n1: "length (arrayParams (partition_params indexFields params)) \<noteq> Suc 0"
    by auto
  show ?thesis
    by (cases "production env") (simp_all add: IndexedDBResource_where_def Let_def ne n1)
qed

lemma two_memberships_partition:
  "partition_params {''id'', ''name''} [(''id__in'', a), (''name__in'', b)] =
     \<lparr>whereParams = [], filterParams = [], arrayParams = [(''id'', a), (''name'', b)],
      suffixedParams = []\<rparr>"
  by (simp add: partition_params_def partition_step_def split_SUFFIX_SEPERATOR_def
      VALID_SUFFIXES_def)

theorem where_multiple_in_fails_witness:
  "IndexedDBResource_where example_env {''id'', ''name''} [item1, item2, item3]
     [(''id__in'', JArr [JNum 1, JNum 2]), (''name__in'', JArr [JStr ''a''])] = Inl TypeError"
proof -
  have "1 < length (arrayParams (partition_params {''id'', ''name''}
          [(''id__in'', JArr [JNum 1, JNum 2]), (''name__in'', JArr [JStr ''a''])]))"
    by (simp add: two_memberships_partition)
  then show ?thesis by (rule where_multiple_in_fails)
qed

section \<open>Resource.where\<close>

text \<open>
  Claim C4. When the local query has no rows, the promise settles with what the remote
  request settles with. When it has rows and one of them was fetched more than the
  refresh interval ago, the promise resolves with the local rows, whatever the request
  that was issued settles with, also when it fails.
\<close>

theorem Resource_where_cases:
  "(IndexedDBResource_where env indexFields tbl params = Inr [] \<longrightarrow>
      Resource_where env stale_other indexFields tbl now request params =
        ((case request params of Inl e \<Rightarrow> Inl e | Inr d \<Rightarrow> Inr (Remote d)), [params]))
   \<and> (\<forall>objs ob t. IndexedDBResource_where env indexFields tbl params = Inr objs
         \<and> ob \<in> set objs \<and> ob LAST_FETCHED = Some (JNum t)
         \<and> now - t > REFRESH_INTERVAL * 1000 \<longrightarrow>
         Resource_where env stale_other indexFields tbl now request params
           = (Inr (Local objs), [params]))"
proof -
  have stale: "objectsAreStale stale_other now objs"
    if "ob \<in> set objs" "ob LAST_FETCHED = Some (JNum t)" "now - t > REFRESH_INTERVAL * 1000"
    for objs ob t
  proof -
    from that(2,3) have "object_is_stale stale_other now ob"
      by (simp add: object_is_stale_def)
    with that(1) show ?thesis by (auto simp: objectsAreStale_def list_ex_iff)
  qed
  show ?thesis
    by (auto simp: Resource_where_def stale)
qed

lemma old_rows: "IndexedDBResource_where env {''id''} [old_row] [] = Inr [old_row]"
  by (simp add: IndexedDBResource_where_def partition_params_def)

lemma no_rows: "IndexedDBResource_where env {''id''} [] [] = Inr []"
  by (simp add: IndexedDBResource_where_def partition_params_def)

text \<open>
  With a request that fails: an empty table passes the failure on; a table with a row
  fetched 100 seconds ago resolves with that row.
\<close>

theorem Resource_where_cases_witness:
  "Resource_where example_env example_stale_other {''id''} [] 100000 failing_request []
       = (Inl RequestFailure, [[]])
   \<and> Resource_where example_env example_stale_other {''id''} [old_row] 100000
         failing_request []
       = (Inr (Local [old_row]), [[]])"
proof -
  have t: "old_row LAST_FETCHED = Some (JNum 0)" by (simp add: old_row_def LAST_FETCHED_def)
  have n: "(100000 :: real) - 0 > REFRESH_INTERVAL * 1000" by (simp add: REFRESH_INTERVAL_def)
  from Resource_where_cases [of example_env "{''id''}" "[]" "[]" example_stale_other 100000
      failing_request]
    Resource_where_cases [of example_env "{''id''}" "[old_row]" "[]" example_stale_other
      100000 failing_request]
    t n
  show ?thesis by (simp add: old_rows no_rows failing_request_def)
qed

section \<open>The change merger\<close>












section \<open>Resource.fetchCollection: reconciliation\<close>
















section \<open>Tree.copy: a deep copy of a node into itself\<close>

lemma table_get_Some_mem: "table_get T k = Some n \<Longrightarrow> n \<in> set T"
  by (auto simp: table_get_def find_Some_iff)

lemma set_where_parent:
  "set (where_parent_sortBy_lft T p) = {n \<in> set T. parent n = p}"
  by (auto simp: where_parent_sortBy_lft_def set_sort_by)

lemma extends_refl: "extends uuid4 st st"
  by (simp add: extends_def)

lemma tableCopy_Inr:
  assumes "tableCopy uuid4 st i target position ct = Inr (data, st')"
  shows "node_id data = uuid4 (next_uuid st)"
    and "tree st' = table_put data (tree st)"
    and "next_uuid st' = Suc (next_uuid st)"
    and "\<exists>p. resolveParent (tree st) target position = Inr p \<and> parent data = p"
proof -
  from assms obtain p siblings node parentNode where
    gp: "getNewParentAndSiblings (tree st) target position = Inr (p, siblings)"
    and n: "table_get (tree st) i = Some node" and pn: "table_get (tree st) p = Some parentNode"
    by (auto simp: tableCopy_def split: if_splits sum.splits option.splits prod.splits)
  from gp have rp: "resolveParent (tree st) target position = Inr p"
    by (auto simp: getNewParentAndSiblings_def split: sum.splits)
  from table_get_node_id [OF pn] have pid: "node_id parentNode = p" .
  from assms gp n pn pid show "node_id data = uuid4 (next_uuid st)"
    by (auto simp: tableCopy_def Let_def split: if_splits sum.splits)
  from assms gp n pn pid show "tree st' = table_put data (tree st)"
    by (auto simp: tableCopy_def Let_def split: if_splits sum.splits)
  from assms gp n pn pid show "next_uuid st' = Suc (next_uuid st)"
    by (auto simp: tableCopy_def Let_def split: if_splits sum.splits)
  from assms gp n pn pid have "parent data = p"
    by (auto simp: tableCopy_def Let_def split: if_splits sum.splits)
  with rp show "\<exists>p. resolveParent (tree st) target position = Inr p \<and> parent data = p" by blast
qed

lemma concat_chunk: "0 < n \<Longrightarrow> concat (chunk n xs) = xs"
proof (induction n xs rule: chunk.induct)
  case (1 n xs)
  show ?case
  proof (cases "xs = []")
    case True
    then show ?thesis by (subst chunk.simps) simp
  next
    case False
    with 1 have "concat (chunk n (drop n xs)) = drop n xs" by simp
    with False 1(2) show ?thesis by (subst chunk.simps) simp
  qed
qed

lemma copy_call_LAST_CHILD: "copy_call i target LAST_CHILD = Copying i target LAST_CHILD"
  by (simp add: copy_call_def validPositions_def)

lemma doomed_not_resolved: "doomed uuid4 st c \<Longrightarrow> \<not> is_resolved c"
  by (cases c) simp_all

lemma doomed_extends:
  "extends uuid4 st st' \<Longrightarrow> doomed uuid4 st c \<Longrightarrow> doomed uuid4 st' c"
proof (induction c)
  case (Reading i data)
  then show ?case by (auto simp: extends_def intro: less_le_trans)
next
  case (Waiting data fin calls rest)
  then show ?case by auto
qed simp_all

lemma extends_tableCopy:
  assumes inj: "inj uuid4" and tc: "tableCopy uuid4 st i target position ct = Inr (data, st')"
  shows "extends uuid4 st st'"
proof -
  note sh = tableCopy_Inr [OF tc]
  have "table_get (tree st') (uuid4 k) = table_get (tree st) (uuid4 k)" if "k < next_uuid st" for k
  proof -
    from that inj have "uuid4 k \<noteq> node_id data" by (auto simp: sh(1) dest: injD)
    then show ?thesis by (simp add: sh(2) table_get_put_other)
  qed
  then show ?thesis by (simp add: extends_def sh(3))
qed

lemma step_extends:
  assumes inj: "inj uuid4"
  shows "step ct deep uuid4 st c st' c' new \<Longrightarrow> extends uuid4 st st'"
  by (induction rule: step.induct)
     (simp_all add: extends_refl extends_tableCopy [OF inj], simp add: extends_def)

lemma doomed_next_chunk:
  assumes "\<exists>n \<in> set (concat chunks). node_id n = node_id data"
  shows "doomed uuid4 st (next_chunk ct data done chunks)"
proof (cases chunks)
  case Nil
  with assms show ?thesis by simp
next
  case (Cons children rest)
  from assms Cons obtain n where n: "node_id n = node_id data"
    and mem: "n \<in> set children \<or> n \<in> set (concat rest)" by auto
  from mem show ?thesis
  proof
    assume "n \<in> set children"
    then have "copy_call (node_id n) (node_id data) LAST_CHILD
                 \<in> set (map (\<lambda>child. copy_call (node_id child) (node_id data) LAST_CHILD) children)"
      by auto
    moreover have "doomed uuid4 st (copy_call (node_id n) (node_id data) LAST_CHILD)"
      by (simp add: copy_call_LAST_CHILD n)
    ultimately show ?thesis unfolding Cons next_chunk_def by (simp del: set_map) blast
  next
    assume "n \<in> set (concat rest)"
    with n show ?thesis unfolding Cons next_chunk_def by (simp del: set_concat) blast
  qed
qed

lemma step_doomed:
  assumes inj: "inj uuid4"
  shows "step ct True uuid4 st c st' c' new \<Longrightarrow> doomed uuid4 st c \<Longrightarrow> doomed uuid4 st' c'"
proof (induction rule: step.induct)
  case (copy_rejected st i target position e)
  then show ?case by simp
next
  case (copied_deep st i target position data st')
  note sh = tableCopy_Inr [OF copied_deep(1)]
  from copied_deep(3) have tgt: "target = i"
    and pos: "position = FIRST_CHILD \<or> position = LAST_CHILD" by simp_all
  from sh(4) pos have "parent data = i" by (auto simp: resolveParent_def tgt)
  moreover have "table_get (tree st') (node_id data) = Some data"
    by (simp add: sh(2) table_get_put_same)
  moreover have "\<exists>k < next_uuid st'. node_id data = uuid4 k"
    using sh(1) sh(3) by auto
  ultimately show ?case by simp
next
  case (copied_shallow st i target position data st')
  then show ?case by simp
next
  case (children_read st i data)
  then have par: "parent data = i" and row: "table_get (tree st) (node_id data) = Some data"
    by simp_all
  from table_get_Some_mem [OF row] par
  have "data \<in> set (where_parent_sortBy_lft (tree st) i)" by (simp add: set_where_parent)
  then have "data \<in> set (concat (chunk 50 (where_parent_sortBy_lft (tree st) i)))"
    by (simp add: concat_chunk)
  then have "\<exists>n \<in> set (concat (chunk 50 (where_parent_sortBy_lft (tree st) i))).
               node_id n = node_id data" by blast
  then show ?case by (rule doomed_next_chunk)
next
  case (child_step k calls st st' c' orphans data fin rest)
  from step_extends [OF inj child_step(2)] have ext: "extends uuid4 st st'" .
  from child_step(4) consider j where "j < length calls" "doomed uuid4 st (calls ! j)"
    | "\<exists>n \<in> set (concat rest). node_id n = node_id data"
    by (auto simp: in_set_conv_nth)
  then show ?case
  proof cases
    case 1
    show ?thesis
    proof (cases "j = k")
      case True
      with 1 child_step(3) have "doomed uuid4 st' c'" by simp
      moreover have "c' \<in> set (calls[k := c'])" using child_step(1) by (simp add: set_update_memI)
      ultimately show ?thesis by auto
    next
      case False
      from doomed_extends [OF ext 1(2)] have "doomed uuid4 st' (calls ! j)" .
      moreover have "calls ! j \<in> set (calls[k := c'])"
        using 1(1) False by (metis length_list_update nth_list_update_neq nth_mem)
      ultimately show ?thesis by auto
    qed
  next
    case 2
    then show ?thesis by simp
  qed
next
  case (chunk_resolved calls st data fin rest)
  from chunk_resolved(1) have "\<not> (\<exists>c \<in> set calls. doomed uuid4 st c)"
    by (auto simp: list_all_iff dest: doomed_not_resolved)
  with chunk_resolved(2) have "\<exists>n \<in> set (concat rest). node_id n = node_id data" by simp
  then show ?case by (rule doomed_next_chunk)
next
  case (chunk_rejected k calls e st data fin rest)
  then show ?case by simp
next
  case (ids_put st results)
  then show ?case by simp
qed

lemma run_step_doomed:
  assumes inj: "inj uuid4"
  shows "run_step ct True uuid4 cfg cfg' \<Longrightarrow> doomed uuid4 (fst cfg) (fst (snd cfg)) \<Longrightarrow>
         doomed uuid4 (fst cfg') (fst (snd cfg'))"
proof (induction rule: run_step.induct)
  case (of_the_call st c st' c' new orphans)
  then show ?case by (simp add: step_doomed [OF inj])
next
  case (of_an_orphan k orphans st st' c' new c)
  from step_extends [OF inj of_an_orphan(2)] of_an_orphan(3) show ?case
    by (simp add: doomed_extends)
qed

lemma run_doomed:
  assumes inj: "inj uuid4"
  shows "rtranclp (run_step ct True uuid4) cfg cfg' \<Longrightarrow> doomed uuid4 (fst cfg) (fst (snd cfg)) \<Longrightarrow>
         doomed uuid4 (fst cfg') (fst (snd cfg'))"
  by (induction rule: rtranclp_induct) (simp_all add: run_step_doomed [OF inj])

lemma example_uuid4_inj: "inj example_uuid4"
proof (rule injI)
  fix m n assume "example_uuid4 m = example_uuid4 n"
  then have "length (example_uuid4 m) = length (example_uuid4 n)" by simp
  then show "m = n" by (simp add: example_uuid4_def)
qed

text \<open>
  Claim C7. \<^verbatim>\<open>Tree.copy\<close> reads the children of the copied node after \<^verbatim>\<open>tableCopy\<close> has put
  the copy into the table. When a node is copied into itself, as its first or last
  child, the copy is one of these children, and \<^verbatim>\<open>copy\<close> is called for the copy with the
  copy as the target: a copy into itself again. So a deep copy of a node into itself
  never resolves, whatever the table holds, the change type is, and the order is in
  which the store serves the requests; \<^verbatim>\<open>uuid4\<close> is taken not to draw an id twice.
\<close>

theorem deep_copy_into_itself_never_returns:
  assumes inj: "inj uuid4" and pos: "position = FIRST_CHILD \<or> position = LAST_CHILD"
  shows "\<not> copy_returns changeType True uuid4 st i i position results st'"
proof
  assume "copy_returns changeType True uuid4 st i i position results st'"
  then obtain orphans where
    run: "rtranclp (run_step changeType True uuid4)
            (st, copy_call i i position, []) (st', Resolved results, orphans)"
    by (auto simp: copy_returns_def)
  from pos have "doomed uuid4 st (copy_call i i position)"
    by (auto simp: copy_call_def validPositions_def)
  with run_doomed [OF inj run] show False by simp
qed

theorem deep_copy_into_itself_never_returns_witness:
  "\<not> (\<exists>results st'. copy_returns COPIED True example_uuid4 single_state ''x'' ''x'' LAST_CHILD
         results st')"
  using deep_copy_into_itself_never_returns [OF example_uuid4_inj, of LAST_CHILD COPIED single_state "''x''"]
  by simp

text \<open>
  A deep copy to another place does resolve: the leaf \<open>a\<close> copied below \<open>c\<close> gives one new
  node, with \<open>a\<close> as its \<open>source_id\<close>.
\<close>

lemma example_copy_of_a_leaf:
  "\<exists>results st'. copy_returns COPIED True example_uuid4 example_state ''a'' ''c'' LAST_CHILD
       results st'
     \<and> map source_id results = [Some ''a''] \<and> map parent results = [''c'']
     \<and> map node_id results = [''u'']"
proof -
  let ?data = "\<lparr>node_id = ''u'', parent = ''c'', lft = Some (Num 1), tree_id = Some (JNum 1),
                channel_id = Some (JStr ''ch''), source_id = Some ''a'', level = Some 2\<rparr>"
  obtain st1 where tc: "tableCopy example_uuid4 example_state ''a'' ''c'' LAST_CHILD COPIED
      = Inr (?data, st1)" and t1: "tree st1 = table_put ?data (tree example_state)"
    by (simp add: tableCopy_def validPositions_def getNewParentAndSiblings_def resolveParent_def
        where_parent_sortBy_lft_def example_state_def three_siblings_def mk_node_def
        table_get_def example_uuid4_def Let_def sort_by_def)
  have kids: "where_parent_sortBy_lft (tree st1) ''a'' = []"
    by (simp add: t1 where_parent_sortBy_lft_def example_state_def three_siblings_def mk_node_def
        sort_by_def)
  have 1: "run_step COPIED True example_uuid4
             (example_state, Copying ''a'' ''c'' LAST_CHILD, []) (st1, Reading ''a'' ?data, [] @ [])"
    by (rule of_the_call, rule copied_deep [OF tc]) simp
  have 2: "run_step COPIED True example_uuid4
             (st1, Reading ''a'' ?data, []) (st1, Resolved [?data], [] @ [])"
    using of_the_call [OF children_read [of COPIED True example_uuid4 st1 "''a''" ?data], of "[]"]
    by (simp add: kids chunk.simps next_chunk_def finish_def)
  from 1 2 have "rtranclp (run_step COPIED True example_uuid4)
      (example_state, copy_call ''a'' ''c'' LAST_CHILD, []) (st1, Resolved [?data], [])"
    by (simp add: copy_call_LAST_CHILD)
  then have "copy_returns COPIED True example_uuid4 example_state ''a'' ''c'' LAST_CHILD
      [?data] st1" unfolding copy_returns_def by blast
  then show ?thesis by (intro exI [of _ "[?data]"] exI [of _ st1]) simp
qed

end
